theory Spec2Isabelle
  imports Main "HOL-Library.Word"
begin

section \<open>Bytes and errors\<close>

text \<open>
  A Node.js \<^verbatim>\<open>Buffer\<close> is a list of bytes. Every exception the
  JavaScript can raise is a value of \<open>error\<close>; a function that may throw returns
  \<open>error + 'a\<close> with \<open>Inl\<close> for the exception.
\<close>

type_synonym byte = "8 word"
type_synonym bytes = "byte list"

datatype error =
    AssertionError string          \<comment> \<open>\<^verbatim>\<open>assert(cond, message)\<close> of bsert failed\<close>
  | LedgerError string             \<comment> \<open>\<^verbatim>\<open>throw new LedgerError(message)\<close>\<close>
  | TypeError string               \<comment> \<open>property access on \<^verbatim>\<open>null\<close> or \<^verbatim>\<open>undefined\<close>\<close>
  | EncodingError string           \<comment> \<open>bufio: write outside the allocated buffer\<close>
  | StatusError nat string string  \<comment> \<open>device status word: code, kind, message\<close>
  | TransportError string          \<comment> \<open>the device exchange itself failed (timeout, framing)\<close>

text \<open>Sequencing: the first exception ends the call.\<close>

definition andThen :: "error + 'a \<Rightarrow> ('a \<Rightarrow> error + 'b) \<Rightarrow> error + 'b" where
  "andThen m f = (case m of Inl e \<Rightarrow> Inl e | Inr x \<Rightarrow> f x)"

section \<open>lib/apdu/common.js: the status tables\<close>

text \<open>
  \<^verbatim>\<open>common.status\<close> and \<^verbatim>\<open>common.errorByStatus\<close> are object literals; the
  model keeps them as association lists in the order of the source, keys as strings.
\<close>

definition status :: "(string \<times> nat) list" where
  "status =
    [(''CACHE_FLUSH_ERROR'', 0x6f27),
     (''CACHE_WRITE_ERROR'', 0x6f26),
     (''CANNOT_ENCODE_ADDRESS'', 0x6f14),
     (''CANNOT_ENCODE_XPUB'', 0x6f23),
     (''CANNOT_INIT_BLAKE2B_CTX'', 0x6f13),
     (''CANNOT_PEEK_SCRIPT_LEN'', 0x6f1e),
     (''CANNOT_READ_BIP32_PATH'', 0x6f15),
     (''CANNOT_READ_INPUT_INDEX'', 0x6f1b),
     (''CANNOT_READ_INPUTS_LEN'', 0x6f18),
     (''CANNOT_READ_OUTPUTS_LEN'', 0x6f19),
     (''CANNOT_READ_OUTPUTS_SIZE'', 0x6f1a),
     (''CANNOT_READ_TX_VERSION'', 0x6f16),
     (''CANNOT_READ_TX_LOCKTIME'', 0x6f17),
     (''CANNOT_READ_SCRIPT_LEN'', 0x6f1d),
     (''CANNOT_READ_SIGHASH_TYPE'', 0x6f1c),
     (''CANNOT_UPDATE_UI'', 0x6f28),
     (''CLA_NOT_SUPPORTED'', 0x6e00),
     (''CONDITIONS_OF_USE_NOT_SATISFIED'', 0x6985),
     (''FAILED_TO_SIGN_INPUT'', 0x6f29),
     (''FILE_NOT_FOUND'', 0x6a82),
     (''INCORRECT_ADDR_PATH'', 0x6f25),
     (''INCORRECT_INPUT_INDEX'', 0x6f1F),
     (''INCORRECT_LENGTH'', 0x6701),
     (''INCORRECT_LC'', 0x6700),
     (''INCORRECT_CDATA'', 0x6a80),
     (''INCORRECT_P1'', 0x6af1),
     (''INCORRECT_P2'', 0x6af2),
     (''INCORRECT_PARAMETERS'', 0x6b00),
     (''INCORRECT_PARSER_STATE'', 0x6f21),
     (''INCORRECT_SIGHASH_TYPE'', 0x6f20),
     (''INCORRECT_SIGNATURE_PATH'', 0x6f22),
     (''INCORRECT_INPUTS_LEN'', 0x6f24),
     (''INTERNAL_ERROR'', 0x6f),
     (''INS_NOT_SUPPORTED'', 0x6d00),
     (''SECURITY_CONDITION_NOT_SATISFIED'', 0x6982),
     (''SUCCESS'', 0x9000)]"

definition errorByStatus :: "(string \<times> string) list" where
  "errorByStatus =
    [(''CACHE_FLUSH_ERROR'', ''Error flushing internal cache''),
     (''CACHE_WRITE_ERROR'', ''Error writing to internal cache''),
     (''CANNOT_ENCODE_ADDRESS'', ''Cannot bech32 encode address''),
     (''CANNOT_ENCODE_XPUB'', ''Cannot base58 encode xpub''),
     (''CANNOT_INIT_BLAKE2B_CTX'', ''Cannot initialize blake2b context''),
     (''CANNOT_PEEK_SCRIPT_LEN'', ''Cannot peek input script length''),
     (''CANNOT_READ_BIP32_PATH'', ''Cannot read BIP32 path''),
     (''CANNOT_READ_INPUT_INDEX'', ''Cannot read index of input''),
     (''CANNOT_READ_INPUTS_LEN'', ''Cannot read input vector length''),
     (''CANNOT_READ_OUTPUTS_LEN'', ''Cannot read output vector length''),
     (''CANNOT_READ_OUTPUTS_SIZE'', ''Cannot read size of outputs vector''),
     (''CANNOT_READ_TX_VERSION'', ''Cannot read tx version''),
     (''CANNOT_READ_TX_LOCKTIME'', ''Cannot read tx locktime''),
     (''CANNOT_READ_SCRIPT_LEN'', ''Cannot read input script length''),
     (''CANNOT_READ_SIGHASH_TYPE'', ''Cannot read sighash type''),
     (''CANNOT_UPDATE_UI'', ''Cannot update Ledger UI''),
     (''CLA_NOT_SUPPORTED'', ''Instruction not supported (check app on the device)''),
     (''CONDITIONS_OF_USE_NOT_SATISFIED'', ''User rejected on-screen confirmation''),
     (''FAILED_TO_SIGN_INPUT'', ''Failed to sign input''),
     (''FILE_NOT_FOUND'', ''File not found''),
     (''INCORRECT_ADDR_PATH'', ''Incorrect BIP44 address path''),
     (''INCORRECT_CDATA'', ''Incorrect CDATA (command data)''),
     (''INCORRECT_INPUT_INDEX'', ''Input index larger than inputs vector length''),
     (''INCORRECT_INPUTS_LEN'', ''Inputs vector length is larger than device limit''),
     (''INCORRECT_LENGTH'', ''Incorrect length''),
     (''INCORRECT_LC'', ''Incorrect LC (length of command data)''),
     (''INCORRECT_P1'', ''Incorrect P1''),
     (''INCORRECT_P2'', ''Incorrect P2''),
     (''INCORRECT_PARAMETERS'', ''Incorrect parameters (P1 or P2)''),
     (''INCORRECT_PARSER_STATE'', ''Incorrect parser state''),
     (''INCORRECT_SIGHASH_TYPE'', ''Incorrect sighash type''),
     (''INCORRECT_SIGNATURE_PATH'', ''Incorrect signature path''),
     (''INS_NOT_SUPPORTED'', ''Instruction not supported (check app on the device)''),
     (''INTERNAL_ERROR'', ''Internal error''),
     (''SECURITY_CONDITION_NOT_SATISFIED'', ''Invalid security status''),
     (''UNKNOWN_ERROR'', ''Unknown status code'')]"

text \<open>
  Modelled from the spec: \<^verbatim>\<open>util.reverse\<close> (lib/utils/util.js is not among the
  sources). The spec calls the result a fixed mapping from integer code to kind; the model
  walks the entries of the object in order and stores each key under its value, a later
  entry replacing an earlier one with the same value as a JavaScript property assignment
  would.
\<close>

definition reverse :: "(string \<times> nat) list \<Rightarrow> (nat \<rightharpoonup> string)" where
  "reverse object = fold (\<lambda>(key, val) reversed. reversed(val \<mapsto> key)) object Map.empty"

definition statusByVal :: "nat \<rightharpoonup> string" where
  "statusByVal = reverse status"

text \<open>
  The pair the table associates with a status word: the kind \<^verbatim>\<open>statusByVal[code]\<close>
  and the message \<^verbatim>\<open>errorByStatus[kind]\<close>. \<open>None\<close> is JavaScript's
  \<^verbatim>\<open>undefined\<close>, the case a caller answers with the \<^verbatim>\<open>UNKNOWN_ERROR\<close> entry.
\<close>

definition kindAndMessage :: "nat \<Rightarrow> (string \<times> string) option" where
  "kindAndMessage code =
     (case statusByVal code of
        None \<Rightarrow> None
      | Some kind \<Rightarrow>
          (case map_of errorByStatus kind of
             None \<Rightarrow> None
           | Some message \<Rightarrow> Some (kind, message)))"

section \<open>lib/ledger/input.js: the signing input\<close>

subsection \<open>Values of the hsd library that the input holds\<close>

text \<open>
  The hsd primitives are external. Each is modelled by what input.js and client.js
  observe of it: a \<^verbatim>\<open>Script\<close> by its raw bytes, an \<^verbatim>\<open>Address\<close> by the
  answer of \<^verbatim>\<open>isScripthash()\<close> and the bytes its \<^verbatim>\<open>write\<close> emits, a
  \<^verbatim>\<open>Coin\<close> by the three fields read here, a \<^verbatim>\<open>KeyRing\<close> by the arguments
  it was made from and the \<^verbatim>\<open>script\<close> property input.js assigns.
\<close>

datatype Script = Script (raw: bytes)

datatype Network = Network string

record Address =
  isScripthash :: bool
  addr_raw :: bytes

record Coin =
  hash :: bytes
  index :: nat
  address :: Address

record Outpoint =
  op_hash :: bytes
  op_index :: nat

record KeyRing =
  ring_publicKey :: bytes
  ring_network :: Network
  ring_script :: "Script option"

text \<open>
  The collaborators input.js calls and that are not among the sources, taken as
  parameters: \<^verbatim>\<open>util.parsePath\<close>, \<^verbatim>\<open>KeyRing.fromPublic\<close> (which may reject a
  key), \<^verbatim>\<open>KeyRing.getKeyHash\<close>, \<^verbatim>\<open>Script.fromPubkeyhash\<close>,
  \<^verbatim>\<open>Outpoint.toKey\<close> and the default network \<^verbatim>\<open>Network.primary\<close>.
\<close>

record hsd =
  parsePath :: "string \<Rightarrow> bool \<Rightarrow> error + nat list"
  KeyRing_fromPublic :: "bytes \<Rightarrow> Network \<Rightarrow> error + KeyRing"
  getKeyHash :: "KeyRing \<Rightarrow> bytes"
  Script_fromPubkeyhash :: "bytes \<Rightarrow> Script"
  Outpoint_toKey :: "Outpoint \<Rightarrow> string"
  Network_primary :: Network

text \<open>\<^verbatim>\<open>Script.hashType.ALL\<close>, the value of hsd.\<close>

definition hashType_ALL :: nat where
  "hashType_ALL = 1"

subsection \<open>The options object\<close>

text \<open>
  JavaScript does not type the options, so each field lists the shapes the checks of
  \<^verbatim>\<open>fromOptions\<close> tell apart. \<open>None\<close> is \<^verbatim>\<open>undefined\<close> or \<^verbatim>\<open>null\<close>.
\<close>

datatype path_value =
    PathFalsy
  | PathString string
  | PathArray "nat list"
  | PathOther

text \<open>
  \<open>PathFalsy\<close> is an absent path or a falsy value other than the empty string;
  \<open>PathOther\<close> is a truthy value that is neither a string nor an array.
\<close>

datatype redeem_value = RedeemBuffer bytes | RedeemScript Script | RedeemOther

datatype coin_value = IsCoin Coin | NotCoin

datatype key_value = KeyBuffer bytes | KeyOther

record Options =
  opt_path :: path_value
  opt_type :: "nat option"
  opt_redeem :: "redeem_value option"
  opt_coin :: coin_value
  opt_publicKey :: "key_value option"

subsection \<open>The class\<close>

text \<open>
  The fields of \<^verbatim>\<open>LedgerInput\<close>. The source's \<^verbatim>\<open>_ring\<close>, \<^verbatim>\<open>_key\<close>,
  \<^verbatim>\<open>_prev\<close>, \<^verbatim>\<open>_prevred\<close>, \<^verbatim>\<open>_outpoint\<close> and \<^verbatim>\<open>_coin\<close> are
  \<open>cache_ring\<close>, \<open>cache_key\<close>, \<open>cache_prev\<close>, \<open>cache_prevred\<close>,
  \<open>cache_outpoint\<close> and \<open>cache_coin\<close> (a name cannot start with an underscore).
  \<open>script\<close>, \<open>cache_outpoint\<close> and \<open>cache_coin\<close> are properties the
  constructor never assigns: they are \<^verbatim>\<open>undefined\<close>, here \<open>None\<close>, until
  something assigns them.
\<close>

record LedgerInput =
  path :: "nat list"
  coin :: "Coin option"
  redeem :: "Script option"
  publicKey :: "bytes option"
  type :: nat
  cache_ring :: "KeyRing option"
  cache_key :: string
  cache_prev :: "Script option"
  cache_prevred :: "Script option"
  script :: "Script option"
  cache_outpoint :: "Outpoint option"
  cache_coin :: "Coin option"

text \<open>The assignments of the constructor, before it looks at its argument.\<close>

definition LedgerInput_init :: LedgerInput where
  "LedgerInput_init =
     \<lparr> path = [], coin = None, redeem = None, publicKey = None, type = hashType_ALL,
       cache_ring = None, cache_key = [], cache_prev = None, cache_prevred = None,
       script = None, cache_outpoint = None, cache_coin = None \<rparr>"

text \<open>
  \<^verbatim>\<open>fromOptions(options)\<close> on the object \<open>this\<close>, one definition for each block
  of the source. Every block either throws or hands the object on.
\<close>

definition set_path :: "hsd \<Rightarrow> Options \<Rightarrow> LedgerInput \<Rightarrow> error + LedgerInput" where
  "set_path X options this =
     (if opt_path options = PathFalsy \<or> opt_path options = PathString []
      then Inl (AssertionError ''Path is required.'')
      else
        (case opt_path options of
           PathString s \<Rightarrow>
             (case parsePath X s True of
                Inl e \<Rightarrow> Inl e
              | Inr p \<Rightarrow> Inr (this\<lparr>path := p\<rparr>))
         | PathArray p \<Rightarrow> Inr (this\<lparr>path := p\<rparr>)
         | _ \<Rightarrow> Inl (AssertionError ''Path must be Array or string'')))"

definition set_type :: "Options \<Rightarrow> LedgerInput \<Rightarrow> error + LedgerInput" where
  "set_type options this =
     (case opt_type options of
        None \<Rightarrow> Inr this
      | Some t \<Rightarrow>
          if t \<noteq> hashType_ALL
          then Inr (this\<lparr>type := t\<rparr>)
          else Inl (AssertionError ''Ledger only supports SIGHASH_ALL''))"

definition set_redeem :: "Options \<Rightarrow> LedgerInput \<Rightarrow> error + LedgerInput" where
  "set_redeem options this =
     (case opt_redeem options of
        None \<Rightarrow> Inr this
      | Some (RedeemBuffer b) \<Rightarrow> Inr (this\<lparr>redeem := Some (Script b)\<rparr>)
      | Some (RedeemScript s) \<Rightarrow> Inr (this\<lparr>redeem := Some s\<rparr>)
      | Some RedeemOther \<Rightarrow> Inl (AssertionError ''Cannot use non-script redeem.''))"

definition set_coin :: "Options \<Rightarrow> LedgerInput \<Rightarrow> error + LedgerInput" where
  "set_coin options this =
     (case coin this of
        Some c \<Rightarrow> Inr this
      | None \<Rightarrow>
          (case opt_coin options of
             NotCoin \<Rightarrow> Inl (AssertionError ''LedgerInput needs Coin'')
           | IsCoin c \<Rightarrow> Inr (this\<lparr>coin := Some c\<rparr>)))"

definition set_publicKey :: "Options \<Rightarrow> LedgerInput \<Rightarrow> error + LedgerInput" where
  "set_publicKey options this =
     (case opt_publicKey options of
        None \<Rightarrow> Inr this
      | Some KeyOther \<Rightarrow> Inl (AssertionError ''Public key must be Buffer'')
      | Some (KeyBuffer k) \<Rightarrow> Inr (this\<lparr>publicKey := Some k\<rparr>))"

definition check_redeem :: "LedgerInput \<Rightarrow> error + LedgerInput" where
  "check_redeem this =
     (case coin this of
        None \<Rightarrow> Inl (TypeError ''Cannot read property address of null'')
      | Some c \<Rightarrow>
          if isScripthash (address c) \<and> redeem this = None
          then Inl (AssertionError ''Cannot sign ScriptHash without redeem.'')
          else Inr this)"

definition fromOptions :: "hsd \<Rightarrow> LedgerInput \<Rightarrow> Options option \<Rightarrow> error + LedgerInput" where
  "fromOptions X this opts =
     (case opts of
        None \<Rightarrow> Inl (AssertionError ''SignInput data is required.'')
      | Some options \<Rightarrow>
          andThen (set_path X options this) (\<lambda>this.
          andThen (set_type options this) (\<lambda>this.
          andThen (set_redeem options this) (\<lambda>this.
          andThen (set_coin options this) (\<lambda>this.
          andThen (set_publicKey options this) (\<lambda>this.
          check_redeem this))))))"

text \<open>
  When \<^verbatim>\<open>fromOptions\<close> throws, the blocks before the failing check have already
  assigned. A constructor that throws leaves no object behind, but the method can be called
  on an existing input: \<open>fromOptions_after\<close> is the object after the call, whether it
  returned or threw.
\<close>

definition fromOptions_after :: "hsd \<Rightarrow> LedgerInput \<Rightarrow> Options option \<Rightarrow> LedgerInput" where
  "fromOptions_after X this opts =
     (case opts of
        None \<Rightarrow> this
      | Some options \<Rightarrow>
     (case set_path X options this of
        Inl e \<Rightarrow> this
      | Inr this1 \<Rightarrow>
     (case set_type options this1 of
        Inl e \<Rightarrow> this1
      | Inr this2 \<Rightarrow>
     (case set_redeem options this2 of
        Inl e \<Rightarrow> this2
      | Inr this3 \<Rightarrow>
     (case set_coin options this3 of
        Inl e \<Rightarrow> this3
      | Inr this4 \<Rightarrow>
     (case set_publicKey options this4 of
        Inl e \<Rightarrow> this4
      | Inr this5 \<Rightarrow> this5))))))"

text \<open>
  \<^verbatim>\<open>new LedgerInput(options)\<close>: the constructor calls \<^verbatim>\<open>fromOptions\<close> only for
  a truthy argument. The static \<^verbatim>\<open>LedgerInput.fromOptions(options)\<close> always calls it.
\<close>

definition LedgerInput_new :: "hsd \<Rightarrow> Options option \<Rightarrow> error + LedgerInput" where
  "LedgerInput_new X opts =
     (case opts of
        None \<Rightarrow> Inr LedgerInput_init
      | Some options \<Rightarrow> fromOptions X LedgerInput_init (Some options))"

definition LedgerInput_fromOptions :: "hsd \<Rightarrow> Options option \<Rightarrow> error + LedgerInput" where
  "LedgerInput_fromOptions X opts = fromOptions X LedgerInput_init opts"

text \<open>
  The getters read and fill the caches, so each returns its result together with the
  object after the call. A getter that throws has assigned nothing.
\<close>

definition getOutpoint :: "LedgerInput \<Rightarrow> (error + Outpoint) \<times> LedgerInput" where
  "getOutpoint this =
     (case cache_outpoint this of
        Some p \<Rightarrow> (Inr p, this)
      | None \<Rightarrow>
          (case coin this of
             None \<Rightarrow> (Inl (TypeError ''Cannot read property hash of null''), this)
           | Some c \<Rightarrow>
               (let p = \<lparr> op_hash = hash c, op_index = index c \<rparr>
                in (Inr p, this\<lparr>cache_outpoint := Some p\<rparr>))))"

definition toKey :: "hsd \<Rightarrow> LedgerInput \<Rightarrow> (error + string) \<times> LedgerInput" where
  "toKey X this =
     (if cache_key this = []
      then (case getOutpoint this of
              (Inl e, this') \<Rightarrow> (Inl e, this')
            | (Inr p, this') \<Rightarrow>
                (Inr (Outpoint_toKey X p), this'\<lparr>cache_key := Outpoint_toKey X p\<rparr>))
      else (Inr (cache_key this), this))"

definition getRing :: "hsd \<Rightarrow> LedgerInput \<Rightarrow> Network option \<Rightarrow> (error + KeyRing) \<times> LedgerInput" where
  "getRing X this network_arg =
     (let network = (case network_arg of None \<Rightarrow> Network_primary X | Some n \<Rightarrow> n) in
      case publicKey this of
        None \<Rightarrow> (Inl (LedgerError ''Cannot return ring without public key''), this)
      | Some pk \<Rightarrow>
          (case cache_ring this of
             Some r \<Rightarrow> (Inr r, this)
           | None \<Rightarrow>
               (case KeyRing_fromPublic X pk network of
                  Inl e \<Rightarrow> (Inl e, this)
                | Inr r0 \<Rightarrow>
                    (let r = (case redeem this of
                                None \<Rightarrow> r0
                              | Some s \<Rightarrow> r0\<lparr>ring_script := Some s\<rparr>)
                     in (Inr r, this\<lparr>cache_ring := Some r\<rparr>)))))"

definition getPrev :: "hsd \<Rightarrow> LedgerInput \<Rightarrow> (error + Script) \<times> LedgerInput" where
  "getPrev X this =
     (case cache_prev this of
        Some s \<Rightarrow> (Inr s, this)
      | None \<Rightarrow>
          (case script this of
             Some s \<Rightarrow> (Inr s, this\<lparr>cache_prev := Some s\<rparr>)
           | None \<Rightarrow>
               (case getRing X this None of
                  (Inl e, this') \<Rightarrow> (Inl e, this')
                | (Inr r, this') \<Rightarrow>
                    (let s = Script_fromPubkeyhash X (getKeyHash X r)
                     in (Inr s, this'\<lparr>cache_prev := Some s\<rparr>)))))"

text \<open>
  \<^verbatim>\<open>getPrevRedeem\<close> returns \<^verbatim>\<open>this.redeem\<close> as it is for a script-hash coin,
  and that may be \<^verbatim>\<open>null\<close>: the result is a \<open>Script option\<close>.
\<close>

definition getPrevRedeem :: "hsd \<Rightarrow> LedgerInput \<Rightarrow> (error + Script option) \<times> LedgerInput" where
  "getPrevRedeem X this =
     (case cache_prevred this of
        Some s \<Rightarrow> (Inr (Some s), this)
      | None \<Rightarrow>
          (case coin this of
             None \<Rightarrow> (Inl (TypeError ''Cannot read property address of null''), this)
           | Some c \<Rightarrow>
               if isScripthash (address c)
               then (Inr (redeem this), this\<lparr>cache_prevred := redeem this\<rparr>)
               else (case getPrev X this of
                       (Inl e, this') \<Rightarrow> (Inl e, this')
                     | (Inr s, this') \<Rightarrow> (Inr (Some s), this'\<lparr>cache_prevred := Some s\<rparr>))))"

definition getCoin :: "LedgerInput \<Rightarrow> Coin option" where
  "getCoin this = coin this"

definition refresh :: "LedgerInput \<Rightarrow> LedgerInput" where
  "refresh this =
     this\<lparr> cache_coin := None, cache_ring := None, cache_key := [],
           cache_prev := None, cache_outpoint := None \<rparr>"

subsection \<open>Options that pass the other checks\<close>

text \<open>
  What the other checks of \<^verbatim>\<open>fromOptions\<close> ask of an options object, as the source
  has them: a path that is an array, or a non-empty string \<^verbatim>\<open>util.parsePath\<close>
  accepts; a sighash type that is absent or, by the assertion of lines 107 to 113, not
  \<^verbatim>\<open>SIGHASH_ALL\<close>; a public key that is absent or a buffer.
\<close>

definition path_accepted :: "hsd \<Rightarrow> Options \<Rightarrow> bool" where
  "path_accepted X options =
     (case opt_path options of
        PathArray p \<Rightarrow> True
      | PathString s \<Rightarrow> s \<noteq> [] \<and> (case parsePath X s True of Inl e \<Rightarrow> False | Inr p \<Rightarrow> True)
      | _ \<Rightarrow> False)"

definition rest_valid :: "hsd \<Rightarrow> Options \<Rightarrow> bool" where
  "rest_valid X options =
     (path_accepted X options \<and> opt_type options \<noteq> Some hashType_ALL
      \<and> opt_publicKey options \<noteq> Some KeyOther)"

subsection \<open>The objects the class and its callers can produce\<close>

text \<open>
  A \<^verbatim>\<open>LedgerInput\<close> comes from the constructor or from the static
  \<^verbatim>\<open>fromOptions\<close>, and changes through its methods, a call of \<^verbatim>\<open>fromOptions\<close>
  that throws midway included. The class has no setters: a caller changes an input by
  assigning to one of the five fields the constructor declares, \<^verbatim>\<open>path\<close>,
  \<^verbatim>\<open>coin\<close>, \<^verbatim>\<open>redeem\<close>, \<^verbatim>\<open>publicKey\<close> and \<^verbatim>\<open>type\<close>, and is expected to call
  \<^verbatim>\<open>refresh()\<close> afterwards; such an assignment is a step too, with or without the
  reset. \<open>reachable X\<close> holds of exactly the objects obtained that way. The caches are
  written by the methods only, and nothing writes the \<^verbatim>\<open>script\<close> property.
\<close>

inductive reachable :: "hsd \<Rightarrow> LedgerInput \<Rightarrow> bool" for X :: hsd where
  by_new: "LedgerInput_new X opts = Inr this \<Longrightarrow> reachable X this"
| by_static: "LedgerInput_fromOptions X opts = Inr this \<Longrightarrow> reachable X this"
| by_fromOptions: "reachable X this \<Longrightarrow> reachable X (fromOptions_after X this opts)"
| by_getOutpoint: "reachable X this \<Longrightarrow> reachable X (snd (getOutpoint this))"
| by_toKey: "reachable X this \<Longrightarrow> reachable X (snd (toKey X this))"
| by_getRing: "reachable X this \<Longrightarrow> reachable X (snd (getRing X this n))"
| by_getPrev: "reachable X this \<Longrightarrow> reachable X (snd (getPrev X this))"
| by_getPrevRedeem: "reachable X this \<Longrightarrow> reachable X (snd (getPrevRedeem X this))"
| by_refresh: "reachable X this \<Longrightarrow> reachable X (refresh this)"
| by_path: "reachable X this \<Longrightarrow> reachable X (this\<lparr>path := p\<rparr>)"
| by_coin: "reachable X this \<Longrightarrow> reachable X (this\<lparr>coin := c\<rparr>)"
| by_redeem: "reachable X this \<Longrightarrow> reachable X (this\<lparr>redeem := r\<rparr>)"
| by_publicKey: "reachable X this \<Longrightarrow> reachable X (this\<lparr>publicKey := k\<rparr>)"
| by_type: "reachable X this \<Longrightarrow> reachable X (this\<lparr>type := t\<rparr>)"

code_pred reachable .

text \<open>
  What no block of \<^verbatim>\<open>fromOptions\<close> changes: the \<^verbatim>\<open>script\<close> property and the two
  script caches stay, a public key is never removed, and a coin once set is kept.
\<close>

definition kept :: "LedgerInput \<Rightarrow> LedgerInput \<Rightarrow> bool" where
  "kept this this' =
     (script this' = script this \<and> cache_prev this' = cache_prev this
      \<and> cache_prevred this' = cache_prevred this
      \<and> (case publicKey this' of None \<Rightarrow> publicKey this = None | Some k \<Rightarrow> True)
      \<and> (case coin this of None \<Rightarrow> True | Some c \<Rightarrow> coin this' = Some c))"

subsection \<open>Concrete values for evaluation\<close>

text \<open>
  One instance of the external collaborators, used where a statement is evaluated at a
  concrete input: the key ring records the key it was made from, the key hash is the first
  twenty bytes of the key, and the pay-to-public-key-hash script is the hash under two
  opcode bytes. No proof of a general statement depends on it.
\<close>

definition hsd_sample :: hsd where
  "hsd_sample =
     \<lparr> parsePath = (\<lambda>s hardened. Inr [44, 5353, 0, 0, 0]),
       KeyRing_fromPublic = (\<lambda>pk n. Inr \<lparr> ring_publicKey = pk, ring_network = n, ring_script = None \<rparr>),
       getKeyHash = (\<lambda>r. take 20 (ring_publicKey r)),
       Script_fromPubkeyhash = (\<lambda>h. Script ([0x76, 0xc0] @ h)),
       Outpoint_toKey = (\<lambda>p. ''key''),
       Network_primary = Network ''main'' \<rparr>"

definition coin_pubkeyhash :: Coin where
  "coin_pubkeyhash =
     \<lparr> hash = replicate 32 0x11, index = 0,
       address = \<lparr> isScripthash = False, addr_raw = 0 # 20 # replicate 20 0x22 \<rparr> \<rparr>"

definition coin_scripthash :: Coin where
  "coin_scripthash =
     \<lparr> hash = replicate 32 0x33, index = 1,
       address = \<lparr> isScripthash = True, addr_raw = 0 # 32 # replicate 32 0x44 \<rparr> \<rparr>"

definition options_sample :: Options where
  "options_sample =
     \<lparr> opt_path = PathArray [44, 5353, 0, 0, 0], opt_type = None, opt_redeem = None,
       opt_coin = IsCoin coin_pubkeyhash, opt_publicKey = None \<rparr>"

definition input_sample :: LedgerInput where
  "input_sample = LedgerInput_init\<lparr>path := [44, 5353, 0, 0, 0], coin := Some coin_pubkeyhash\<rparr>"


text \<open>
  The sample input with a public key of 33 bytes \<open>0x02\<close>; and that input after it has
  been asked for its previous-redeem script and its \<^verbatim>\<open>publicKey\<close> has then been set to
  null, with no reset.
\<close>

definition input_keyed :: LedgerInput where
  "input_keyed = input_sample\<lparr>publicKey := Some (replicate 33 2)\<rparr>"

definition input_unkeyed :: LedgerInput where
  "input_unkeyed = (snd (getPrevRedeem hsd_sample input_keyed))\<lparr>publicKey := None\<rparr>"

section \<open>lib/ledger/client.js: the protocol engine\<close>

subsection \<open>bufio: integer encodings and the fixed-size writer\<close>

text \<open>
  bufio is external. Its integers are little-endian; \<open>le k n\<close> is the \<open>k\<close> low bytes
  of \<open>n\<close>, least significant first. \<^verbatim>\<open>writeVarint\<close> and \<^verbatim>\<open>sizeVarint\<close> are the
  compact-size encoding: one byte below \<^verbatim>\<open>0xfd\<close>, else a marker byte and 2, 4 or 8
  bytes. Lengths are natural numbers here; JavaScript's limits on the size of a length
  and of a buffer are not modelled.
\<close>

definition le :: "nat \<Rightarrow> nat \<Rightarrow> bytes" where
  "le k n = map (\<lambda>i. of_nat (n div 256 ^ i)) [0..<k]"

definition sizeVarint :: "nat \<Rightarrow> nat" where
  "sizeVarint num =
     (if num < 0xfd then 1
      else if num \<le> 0xffff then 3
      else if num \<le> 0xffffffff then 5
      else 9)"

definition varint :: "nat \<Rightarrow> bytes" where
  "varint num =
     (if num < 0xfd then [of_nat num]
      else if num \<le> 0xffff then 0xfd # le 2 num
      else if num \<le> 0xffffffff then 0xfe # le 4 num
      else 0xff # le 8 num)"

text \<open>
  \<^verbatim>\<open>bufio.write(size)\<close> allocates \<open>size'\<close> bytes. A write that would pass the end
  throws, and \<^verbatim>\<open>render()\<close> throws unless the buffer is exactly full. The writer is the
  allocated size and the bytes written so far.
\<close>

type_synonym writer = "nat \<times> bytes"

definition bufio_write :: "nat \<Rightarrow> writer" where
  "bufio_write size' = (size', [])"

definition writeBytes :: "bytes \<Rightarrow> writer \<Rightarrow> error + writer" where
  "writeBytes bs bw =
     (case bw of (size', written) \<Rightarrow>
        if length written + length bs \<le> size'
        then Inr (size', written @ bs)
        else Inl (EncodingError ''Out of bounds write''))"

definition writeU32 :: "32 word \<Rightarrow> writer \<Rightarrow> error + writer" where
  "writeU32 v = writeBytes (le 4 (unat v))"

text \<open>
  \<^verbatim>\<open>writeU64\<close> takes a JavaScript number. bufio writes it only when it is a safe
  integer, one of at most \<open>2^53 - 1\<close>, and throws a \<^verbatim>\<open>TypeError\<close> for any other before
  it writes a byte. Only the kind of that exception is taken from bufio; the message is a
  placeholder.
\<close>

definition MAX_SAFE_INTEGER :: nat where
  "MAX_SAFE_INTEGER = 2 ^ 53 - 1"

definition writeU64 :: "nat \<Rightarrow> writer \<Rightarrow> error + writer" where
  "writeU64 num bw =
     (if num \<le> MAX_SAFE_INTEGER then writeBytes (le 8 num) bw
      else Inl (TypeError ''num must be a safe integer''))"

definition writeVarint :: "nat \<Rightarrow> writer \<Rightarrow> error + writer" where
  "writeVarint num = writeBytes (varint num)"

definition render :: "writer \<Rightarrow> error + bytes" where
  "render bw =
     (case bw of (size', written) \<Rightarrow>
        if length written = size' then Inr written
        else Inl (EncodingError ''Out of bounds write''))"

subsection \<open>The transaction as client.js reads it\<close>

text \<open>
  An hsd outpoint, address and covenant reach client.js only through \<^verbatim>\<open>getSize()\<close>
  (\<^verbatim>\<open>getVarSize()\<close> for the covenant) and \<^verbatim>\<open>write(buf)\<close>. Each is held as the bytes
  its \<^verbatim>\<open>write\<close> emits (\<open>addr_raw\<close> for an address), and its size method is the length of
  those bytes: that the two agree is hsd's contract, not something client.js checks.
  An output's value is a JavaScript number that hsd keeps a non-negative integer; it is a
  natural number here, of any size, and \<^verbatim>\<open>writeU64\<close> is where a size matters.
\<close>

record TxInput =
  prevout :: bytes
  sequence :: "32 word"

record TxOutput =
  out_value :: nat
  out_address :: Address
  covenant :: bytes

record MTX =
  version :: "32 word"
  locktime :: "32 word"
  inputs :: "TxInput list"
  outputs :: "TxOutput list"

subsection \<open>Chunks, commands, responses and the device\<close>

text \<open>
  Modelled from the spec: \<^verbatim>\<open>util.splitBuffer\<close> (lib/utils/util.js is not among the
  sources). The spec says the buffer is split into chunks bounded by a maximum packet
  size, \<open>ceil(size / max)\<close> of them: consecutive chunks of \<open>size'\<close> bytes, the last one
  holding what remains. The third argument client.js passes in \<^verbatim>\<open>getInputSignature\<close>
  is not described by the spec and is taken not to change the chunks.
\<close>

function splitBuffer :: "bytes \<Rightarrow> nat \<Rightarrow> bytes list" where
  "splitBuffer data size' =
     (if size' = 0 \<or> data = [] then []
      else take size' data # splitBuffer (drop size' data) size')"
  by pat_completeness auto
termination
  by (relation "measure (\<lambda>(data, size'). length data)") auto

declare splitBuffer.simps [simp del]

text \<open>
  The parts of lib/apdu, lib/utils and lib/device that client.js calls and that are not
  among the sources, taken as parameters. A command builder stands for the builder
  followed by \<^verbatim>\<open>toRaw()\<close>; it may throw, as the spec says a builder validates its
  arguments. A response parser throws for any response it does not accept, a status word
  other than success among them. \<open>'h\<close> is the hsd input primitive handed through to the
  builder.
\<close>

record 'h apdu =
  MAX_TX_PACKET :: nat
  MAX_SCRIPT_PACKET :: nat
  cmd_parseTX :: "bytes \<Rightarrow> bool \<Rightarrow> error + bytes"
  cmd_getInputSignature :: "LedgerInput option \<Rightarrow> 'h option \<Rightarrow> bytes \<Rightarrow> bool \<Rightarrow> error + bytes"
  res_parseTX :: "bytes \<Rightarrow> error + unit"
  res_getInputSignature :: "bytes \<Rightarrow> bool \<Rightarrow> error + bytes"

text \<open>
  Modelled from the spec: the device (lib/device is not among the sources), of which the
  spec says only that \<^verbatim>\<open>exchange(bytes)\<close> is one blocking round trip that returns bytes or
  fails. A device is any function from the requests received so far, the current one last,
  to a response or an exception; \<open>log\<close> is the list of requests it has received. The
  number of exchanges of an operation is the number of entries it adds to the log.
\<close>

record Device =
  behaviour :: "bytes list \<Rightarrow> error + bytes"
  log :: "bytes list"

definition exchange :: "Device \<Rightarrow> bytes \<Rightarrow> (error + bytes) \<times> Device" where
  "exchange dev req = (behaviour dev (log dev @ [req]), dev\<lparr>log := log dev @ [req]\<rparr>)"

subsection \<open>parseTX\<close>

text \<open>
  The size computed at the head of \<^verbatim>\<open>parseTX\<close>, with the loops of the source as folds
  over the inputs and the outputs.
\<close>

definition parseTX_outs :: "MTX \<Rightarrow> nat" where
  "parseTX_outs mtx =
     fold (\<lambda>output outs.
             outs + 8 + length (addr_raw (out_address output)) + length (covenant output))
          (outputs mtx) 0"

definition parseTX_size :: "MTX \<Rightarrow> nat" where
  "parseTX_size mtx =
     (let size' = 0;
          size' = size' + 8;
          size' = size' + sizeVarint (length (inputs mtx));
          size' = size' + sizeVarint (length (outputs mtx));
          size' = fold (\<lambda>input size'. size' + 4 + length (prevout input)) (inputs mtx) size';
          outs = parseTX_outs mtx;
          size' = size' + sizeVarint outs;
          size' = size' + outs
      in size')"

fun write_inputs :: "TxInput list \<Rightarrow> writer \<Rightarrow> error + writer" where
  "write_inputs [] buf = Inr buf"
| "write_inputs (input # rest) buf =
     andThen (writeBytes (prevout input) buf) (\<lambda>buf.
     andThen (writeU32 (sequence input) buf) (\<lambda>buf.
     write_inputs rest buf))"

fun write_outputs :: "TxOutput list \<Rightarrow> writer \<Rightarrow> error + writer" where
  "write_outputs [] buf = Inr buf"
| "write_outputs (output # rest) buf =
     andThen (writeU64 (out_value output) buf) (\<lambda>buf.
     andThen (writeBytes (addr_raw (out_address output)) buf) (\<lambda>buf.
     andThen (writeBytes (covenant output) buf) (\<lambda>buf.
     write_outputs rest buf)))"

text \<open>The buffer \<^verbatim>\<open>buf.render()\<close> that \<^verbatim>\<open>parseTX\<close> goes on to split.\<close>

definition parseTX_buffer :: "MTX \<Rightarrow> error + bytes" where
  "parseTX_buffer mtx =
     andThen (writeU32 (version mtx) (bufio_write (parseTX_size mtx))) (\<lambda>buf.
     andThen (writeU32 (locktime mtx) buf) (\<lambda>buf.
     andThen (writeVarint (length (inputs mtx)) buf) (\<lambda>buf.
     andThen (writeVarint (length (outputs mtx)) buf) (\<lambda>buf.
     andThen (writeVarint (parseTX_outs mtx) buf) (\<lambda>buf.
     andThen (write_inputs (inputs mtx) buf) (\<lambda>buf.
     andThen (write_outputs (outputs mtx) buf) (\<lambda>buf.
     render buf)))))))"

text \<open>
  One chunk: build the command, exchange it, parse the response. The source has these
  three lines once for the first chunk and once in the loop.
\<close>

definition sendTX :: "'h apdu \<Rightarrow> Device \<Rightarrow> bytes \<Rightarrow> bool \<Rightarrow> (error + unit) \<times> Device" where
  "sendTX A dev msg first =
     (case cmd_parseTX A msg first of
        Inl e \<Rightarrow> (Inl e, dev)
      | Inr packet \<Rightarrow>
          (case exchange dev packet of
             (Inl e, dev') \<Rightarrow> (Inl e, dev')
           | (Inr res, dev') \<Rightarrow> (res_parseTX A res, dev')))"

fun parseTX_loop :: "'h apdu \<Rightarrow> bytes list \<Rightarrow> Device \<Rightarrow> (error + unit) \<times> Device" where
  "parseTX_loop A [] dev = (Inr (), dev)"
| "parseTX_loop A (msg # msgs) dev =
     (case sendTX A dev msg False of
        (Inl e, dev') \<Rightarrow> (Inl e, dev')
      | (Inr u, dev') \<Rightarrow> parseTX_loop A msgs dev')"

text \<open>
  \<^verbatim>\<open>parseTX(mtx, ledgerInputByKey)\<close>. The assertions on the classes of the arguments
  are the types here, and the second argument is not used after them. With no chunk at all
  \<^verbatim>\<open>msgs.shift()\<close> is \<^verbatim>\<open>undefined\<close>; the buffer is never empty, so that branch is
  not taken (lemma \<open>parseTX_chunks_nonempty\<close>).
\<close>

definition parseTX :: "'h apdu \<Rightarrow> Device \<Rightarrow> MTX \<Rightarrow> (error + unit) \<times> Device" where
  "parseTX A dev mtx =
     (case parseTX_buffer mtx of
        Inl e \<Rightarrow> (Inl e, dev)
      | Inr buf \<Rightarrow>
          (case splitBuffer buf (MAX_TX_PACKET A) of
             [] \<Rightarrow> (Inl (TypeError ''no first packet''), dev)
           | fst' # msgs \<Rightarrow>
               (case sendTX A dev fst' True of
                  (Inl e, dev') \<Rightarrow> (Inl e, dev')
                | (Inr u, dev') \<Rightarrow> parseTX_loop A msgs dev')))"

subsection \<open>getInputSignature\<close>

text \<open>
  \<^verbatim>\<open>raw.getVarSize()\<close> and \<^verbatim>\<open>raw.write(bw)\<close> of an hsd script: the raw bytes under
  their compact-size length.
\<close>

definition Script_getVarSize :: "Script \<Rightarrow> nat" where
  "Script_getVarSize s = sizeVarint (length (raw s)) + length (raw s)"

definition Script_write :: "Script \<Rightarrow> writer \<Rightarrow> error + writer" where
  "Script_write s bw =
     andThen (writeVarint (length (raw s)) bw) (\<lambda>bw. writeBytes (raw s) bw)"

definition encoded_script :: "Script \<Rightarrow> error + bytes" where
  "encoded_script s =
     andThen (Script_write s (bufio_write (Script_getVarSize s))) (\<lambda>bw. render bw)"

text \<open>The loop over the packets between the first and the last: each expects nothing.\<close>

fun getInputSignature_loop :: "'h apdu \<Rightarrow> bytes list \<Rightarrow> Device \<Rightarrow> (error + unit) \<times> Device" where
  "getInputSignature_loop A [] dev = (Inr (), dev)"
| "getInputSignature_loop A (msg # msgs) dev =
     (case cmd_getInputSignature A None None msg False of
        Inl e \<Rightarrow> (Inl e, dev)
      | Inr packet \<Rightarrow>
          (case exchange dev packet of
             (Inl e, dev') \<Rightarrow> (Inl e, dev')
           | (Inr res, dev') \<Rightarrow>
               (case res_getInputSignature A res True of
                  Inl e \<Rightarrow> (Inl e, dev')
                | Inr d \<Rightarrow> getInputSignature_loop A msgs dev')))"

text \<open>
  \<^verbatim>\<open>getInputSignature(ledgerInput, hsdInput)\<close>. The second argument of the response
  parser is \<open>True\<close> where the source passes \<^verbatim>\<open>true\<close> (expect nothing) and \<open>False\<close>
  where it passes none (expect the signature). The input object handed to the first
  command is the one \<^verbatim>\<open>getPrevRedeem\<close> leaves.
\<close>

definition getInputSignature ::
  "hsd \<Rightarrow> 'h apdu \<Rightarrow> Device \<Rightarrow> LedgerInput \<Rightarrow> 'h \<Rightarrow> (error + bytes) \<times> Device" where
  "getInputSignature X A dev ledgerInput hsdInput =
     (case getPrevRedeem X ledgerInput of
        (Inl e, li) \<Rightarrow> (Inl e, dev)
      | (Inr None, li) \<Rightarrow> (Inl (TypeError ''Cannot read property getVarSize of null''), dev)
      | (Inr (Some s), li) \<Rightarrow>
     (case encoded_script s of
        Inl e \<Rightarrow> (Inl e, dev)
      | Inr script' \<Rightarrow>
     (case splitBuffer script' (MAX_SCRIPT_PACKET A) of
        [] \<Rightarrow> (Inl (TypeError ''no first packet''), dev)
      | first # msgs \<Rightarrow>
     (case cmd_getInputSignature A (Some li) (Some hsdInput) first True of
        Inl e \<Rightarrow> (Inl e, dev)
      | Inr packet \<Rightarrow>
     (case exchange dev packet of
        (Inl e, dev1) \<Rightarrow> (Inl e, dev1)
      | (Inr res, dev1) \<Rightarrow>
     if msgs = [] then (res_getInputSignature A res False, dev1)
     else
     (case res_getInputSignature A res True of
        Inl e \<Rightarrow> (Inl e, dev1)
      | Inr d \<Rightarrow>
     (case getInputSignature_loop A (butlast msgs) dev1 of
        (Inl e, dev2) \<Rightarrow> (Inl e, dev2)
      | (Inr u, dev2) \<Rightarrow>
     (case cmd_getInputSignature A None None (last msgs) False of
        Inl e \<Rightarrow> (Inl e, dev2)
      | Inr packet \<Rightarrow>
     (case exchange dev2 packet of
        (Inl e, dev3) \<Rightarrow> (Inl e, dev3)
      | (Inr res, dev3) \<Rightarrow> (res_getInputSignature A res False, dev3))))))))))"

subsection \<open>What the device answered\<close>

text \<open>
  \<open>reply dev pkts i\<close> is the device's answer to packet \<open>i\<close> of \<open>pkts\<close> when the
  packets before it were sent in order after what the device had already received.
  A reply to a transaction chunk is \<open>acked\<close> when it arrives and the parser accepts it,
  and \<open>refused\<close> with \<open>e\<close> when the exchange or the parser throws \<open>e\<close>.
\<close>

definition reply :: "Device \<Rightarrow> bytes list \<Rightarrow> nat \<Rightarrow> error + bytes" where
  "reply dev pkts i = behaviour dev (log dev @ take (Suc i) pkts)"

definition acked :: "'h apdu \<Rightarrow> Device \<Rightarrow> bytes list \<Rightarrow> nat \<Rightarrow> bool" where
  "acked A dev pkts i =
     (case reply dev pkts i of Inl e \<Rightarrow> False | Inr res \<Rightarrow> res_parseTX A res = Inr ())"

definition refused :: "'h apdu \<Rightarrow> Device \<Rightarrow> bytes list \<Rightarrow> nat \<Rightarrow> error \<Rightarrow> bool" where
  "refused A dev pkts i e =
     (case reply dev pkts i of Inl e' \<Rightarrow> e' = e | Inr res \<Rightarrow> res_parseTX A res = Inl e)"

text \<open>
  The same for a reply to a script chunk that is expected to carry nothing: \<open>empty_acked\<close>
  when it arrives and the parser, told to expect nothing, accepts it, and
  \<open>empty_refused\<close> with \<open>e\<close> when the exchange or that parse throws \<open>e\<close>.
\<close>

definition empty_acked :: "'h apdu \<Rightarrow> Device \<Rightarrow> bytes list \<Rightarrow> nat \<Rightarrow> bool" where
  "empty_acked A dev pkts i =
     (case reply dev pkts i of
        Inl e \<Rightarrow> False
      | Inr res \<Rightarrow>
          (case res_getInputSignature A res True of Inl e \<Rightarrow> False | Inr d \<Rightarrow> True))"

definition empty_refused :: "'h apdu \<Rightarrow> Device \<Rightarrow> bytes list \<Rightarrow> nat \<Rightarrow> error \<Rightarrow> bool" where
  "empty_refused A dev pkts i e =
     (case reply dev pkts i of
        Inl e' \<Rightarrow> e' = e
      | Inr res \<Rightarrow> res_getInputSignature A res True = Inl e)"

subsection \<open>The layout of one input and of one output\<close>

text \<open>
  The bytes the loops of \<^verbatim>\<open>parseTX\<close> write for one input (the previous outpoint, then
  the sequence number) and for one output (the value, the address, the covenant).
\<close>

definition input_bytes :: "TxInput \<Rightarrow> bytes" where
  "input_bytes input = prevout input @ le 4 (unat (sequence input))"

definition output_bytes :: "TxOutput \<Rightarrow> bytes" where
  "output_bytes output =
     le 8 (out_value output) @ addr_raw (out_address output) @ covenant output"

subsection \<open>Concrete values for evaluation\<close>

text \<open>
  One instance of the absent collaborators of client.js, used where a statement is
  evaluated at a concrete input. Packets are four bytes at most; a command is its chunk
  under one byte that tells a first chunk from a later one; a response is accepted when it
  ends in the success status word \<^verbatim>\<open>0x9000\<close>, and refused otherwise with the kind and
  message the tables of common.js give its status word. No proof of a general statement
  depends on it.
\<close>

definition statusWord :: "bytes \<Rightarrow> nat" where
  "statusWord res = (case rev res of lo # hi # _ \<Rightarrow> 256 * unat hi + unat lo | _ \<Rightarrow> 0)"

definition statusError :: "bytes \<Rightarrow> error" where
  "statusError res =
     (case kindAndMessage (statusWord res) of
        Some (kind, message) \<Rightarrow> StatusError (statusWord res) kind message
      | None \<Rightarrow> StatusError (statusWord res) ''UNKNOWN_ERROR'' ''Unknown status code'')"

definition apdu_sample :: "unit apdu" where
  "apdu_sample =
     \<lparr> MAX_TX_PACKET = 4,
       MAX_SCRIPT_PACKET = 4,
       cmd_parseTX = (\<lambda>data first. Inr ((if first then 1 else 0) # data)),
       cmd_getInputSignature = (\<lambda>li hi data first. Inr ((if first then 1 else 0) # data)),
       res_parseTX = (\<lambda>res. if res = [0x90, 0x00] then Inr () else Inl (statusError res)),
       res_getInputSignature =
         (\<lambda>res empty.
            if statusWord res \<noteq> 0x9000 then Inl (statusError res)
            else if empty \<and> length res \<noteq> 2 then Inl (EncodingError ''Unexpected data'')
            else Inr (butlast (butlast res))) \<rparr>"

text \<open>A transaction with no input and no output: its preamble is eleven zero bytes.\<close>

definition mtx_sample :: MTX where
  "mtx_sample = \<lparr> version = 0, locktime = 0, inputs = [], outputs = [] \<rparr>"

text \<open>
  A transaction with one input and one output of value 1000, and the same transaction with
  the output value \<open>2^53\<close>, the first number that is not a safe integer.
\<close>

definition output_one :: TxOutput where
  "output_one =
     \<lparr> out_value = 1000,
       out_address = \<lparr> isScripthash = False, addr_raw = [0x00, 0x14] \<rparr>,
       covenant = [0x00] \<rparr>"

definition mtx_one :: MTX where
  "mtx_one =
     \<lparr> version = 1, locktime = 0,
       inputs = [\<lparr> prevout = [0xaa, 0xbb], sequence = 0xffffffff \<rparr>],
       outputs = [output_one] \<rparr>"

definition mtx_unsafe :: MTX where
  "mtx_unsafe = mtx_one\<lparr>outputs := [output_one\<lparr>out_value := 2 ^ 53\<rparr>]\<rparr>"

text \<open>
  A device that acknowledges every request but its second, which it answers with the
  user-rejection status word; and one that acknowledges every request but its \<open>k\<close>-th,
  which it answers with a signature of three bytes.
\<close>

definition device_rejecting :: Device where
  "device_rejecting =
     \<lparr> behaviour = (\<lambda>reqs. if length reqs = 2 then Inr [0x69, 0x85] else Inr [0x90, 0x00]),
       log = [] \<rparr>"

definition device_signing :: "nat \<Rightarrow> Device" where
  "device_signing k =
     \<lparr> behaviour = (\<lambda>reqs. if length reqs = k then Inr [0xaa, 0xbb, 0xcc, 0x90, 0x00]
                                else Inr [0x90, 0x00]),
       log = [] \<rparr>"

text \<open>Inputs for a script-hash coin, with a redeem script of nine bytes and of one.\<close>

definition input_redeem :: "bytes \<Rightarrow> LedgerInput" where
  "input_redeem r = input_sample\<lparr>coin := Some coin_scripthash, redeem := Some (Script r)\<rparr>"

section \<open>Properties of the status tables\<close>

lemma statusByVal_rejected: "statusByVal 0x6985 = Some ''CONDITIONS_OF_USE_NOT_SATISFIED''"
  by (simp add: statusByVal_def reverse_def status_def)

lemma statusByVal_not_found: "statusByVal 0x6a82 = Some ''FILE_NOT_FOUND''"
  by (simp add: statusByVal_def reverse_def status_def)

lemma statusByVal_ins: "statusByVal 0x6d00 = Some ''INS_NOT_SUPPORTED''"
  by (simp add: statusByVal_def reverse_def status_def)

text \<open>
  Claim C4. The three representative status words are in the table under their names
  \<^verbatim>\<open>CONDITIONS_OF_USE_NOT_SATISFIED = 0x6985\<close>, \<^verbatim>\<open>FILE_NOT_FOUND = 0x6a82\<close> and
  \<^verbatim>\<open>INS_NOT_SUPPORTED = 0x6d00\<close>; the reversed table maps each code back to exactly
  that name, the message table gives the documented message for it, and none of the three
  messages is the one of the generic \<^verbatim>\<open>UNKNOWN_ERROR\<close> entry.
\<close>

theorem status_table_sample:
  "map_of status ''CONDITIONS_OF_USE_NOT_SATISFIED'' = Some 0x6985
   \<and> map_of status ''FILE_NOT_FOUND'' = Some 0x6a82
   \<and> map_of status ''INS_NOT_SUPPORTED'' = Some 0x6d00
   \<and> kindAndMessage 0x6985 =
       Some (''CONDITIONS_OF_USE_NOT_SATISFIED'', ''User rejected on-screen confirmation'')
   \<and> kindAndMessage 0x6a82 = Some (''FILE_NOT_FOUND'', ''File not found'')
   \<and> kindAndMessage 0x6d00 =
       Some (''INS_NOT_SUPPORTED'', ''Instruction not supported (check app on the device)'')
   \<and> map_of errorByStatus ''UNKNOWN_ERROR'' = Some ''Unknown status code''
   \<and> map_option snd (kindAndMessage 0x6985) \<noteq> map_of errorByStatus ''UNKNOWN_ERROR''
   \<and> map_option snd (kindAndMessage 0x6a82) \<noteq> map_of errorByStatus ''UNKNOWN_ERROR''
   \<and> map_option snd (kindAndMessage 0x6d00) \<noteq> map_of errorByStatus ''UNKNOWN_ERROR''"
proof -
  have s1: "map_of status ''CONDITIONS_OF_USE_NOT_SATISFIED'' = Some 0x6985"
    by (simp add: status_def)
  have s2: "map_of status ''FILE_NOT_FOUND'' = Some 0x6a82"
    by (simp add: status_def)
  have s3: "map_of status ''INS_NOT_SUPPORTED'' = Some 0x6d00"
    by (simp add: status_def)
  have m1: "map_of errorByStatus ''CONDITIONS_OF_USE_NOT_SATISFIED''
      = Some ''User rejected on-screen confirmation''"
    by (simp add: errorByStatus_def)
  have m2: "map_of errorByStatus ''FILE_NOT_FOUND'' = Some ''File not found''"
    by (simp add: errorByStatus_def)
  have m3: "map_of errorByStatus ''INS_NOT_SUPPORTED''
      = Some ''Instruction not supported (check app on the device)''"
    by (simp add: errorByStatus_def)
  have u: "map_of errorByStatus ''UNKNOWN_ERROR'' = Some ''Unknown status code''"
    by (simp add: errorByStatus_def)
  have k1: "kindAndMessage 0x6985 =
      Some (''CONDITIONS_OF_USE_NOT_SATISFIED'', ''User rejected on-screen confirmation'')"
    by (simp add: kindAndMessage_def statusByVal_rejected m1)
  have k2: "kindAndMessage 0x6a82 = Some (''FILE_NOT_FOUND'', ''File not found'')"
    by (simp add: kindAndMessage_def statusByVal_not_found m2)
  have k3: "kindAndMessage 0x6d00 =
      Some (''INS_NOT_SUPPORTED'', ''Instruction not supported (check app on the device)'')"
    by (simp add: kindAndMessage_def statusByVal_ins m3)
  show ?thesis
    by (simp add: s1 s2 s3 k1 k2 k3 u)
qed

section \<open>Properties of the signing input\<close>

subsection \<open>Construction\<close>

lemma andThen_Inr [simp]: "andThen (Inr x) f = f x"
  by (simp add: andThen_def)

lemma andThen_Inl [simp]: "andThen (Inl e) f = Inl e"
  by (simp add: andThen_def)

lemma andThen_eq_Inr: "andThen m f = Inr y \<longleftrightarrow> (\<exists>x. m = Inr x \<and> f x = Inr y)"
  by (cases m) simp_all

text \<open>
  The sighash check of \<^verbatim>\<open>fromOptions\<close> in general: a given type is accepted exactly
  when it differs from \<^verbatim>\<open>SIGHASH_ALL\<close>.
\<close>

lemma set_type_given:
  "set_type (options\<lparr>opt_type := Some t\<rparr>) this =
     (if t = hashType_ALL then Inl (AssertionError ''Ledger only supports SIGHASH_ALL'')
      else Inr (this\<lparr>type := t\<rparr>))"
  by (simp add: set_type_def)

lemma fromOptions_type_ALL_fails:
  "opt_type options = Some hashType_ALL \<Longrightarrow> fromOptions X this (Some options) \<noteq> Inr this'"
  by (auto simp: fromOptions_def andThen_eq_Inr set_type_def)

text \<open>
  Claim C1, evaluated on the code. The claim wants a given type other than
  \<^verbatim>\<open>SIGHASH_ALL\<close> refused and \<^verbatim>\<open>SIGHASH_ALL\<close> itself accepted. The assertion of
  the source is \<^verbatim>\<open>assert(options.type !== Script.hashType.ALL, 'Ledger only supports
  SIGHASH_ALL')\<close>: with an otherwise valid options object, the type \<^verbatim>\<open>ALL\<close> is refused
  with that message, and the type 2 (\<^verbatim>\<open>NONE\<close>) is accepted and stored.
\<close>

theorem fromOptions_sighash_inverted:
  "LedgerInput_fromOptions hsd_sample (Some (options_sample\<lparr>opt_type := Some hashType_ALL\<rparr>))
     = Inl (AssertionError ''Ledger only supports SIGHASH_ALL'')
   \<and> LedgerInput_fromOptions hsd_sample (Some (options_sample\<lparr>opt_type := Some 2\<rparr>))
     = Inr (LedgerInput_init\<lparr>path := [44, 5353, 0, 0, 0], type := 2,
                             coin := Some coin_pubkeyhash\<rparr>)
   \<and> LedgerInput_fromOptions hsd_sample (Some options_sample)
     = Inr (LedgerInput_init\<lparr>path := [44, 5353, 0, 0, 0], coin := Some coin_pubkeyhash\<rparr>)"
  by (simp add: LedgerInput_fromOptions_def fromOptions_def set_path_def set_type_def
      set_redeem_def set_coin_def set_publicKey_def check_redeem_def options_sample_def
      hashType_ALL_def coin_pubkeyhash_def LedgerInput_init_def)

lemma set_path_accepted:
  "path_accepted X options \<Longrightarrow> \<exists>p. set_path X options this = Inr (this\<lparr>path := p\<rparr>)"
  by (auto simp: path_accepted_def set_path_def split: path_value.splits sum.splits)

lemma set_publicKey_accepted:
  "opt_publicKey options \<noteq> Some KeyOther \<Longrightarrow>
   \<exists>k. set_publicKey options this = Inr (this\<lparr>publicKey := k\<rparr>)"
proof (cases "opt_publicKey options")
  case None
  have "this = this\<lparr>publicKey := publicKey this\<rparr>" by simp
  with None show ?thesis
    unfolding set_publicKey_def by (metis option.simps(4))
next
  case (Some v)
  assume "opt_publicKey options \<noteq> Some KeyOther"
  with Some obtain k where "v = KeyBuffer k" by (cases v) auto
  with Some show ?thesis by (auto simp: set_publicKey_def)
qed

lemma check_redeem_fails:
  "coin this = Some c \<Longrightarrow> isScripthash (address c) \<Longrightarrow> redeem this = None \<Longrightarrow>
   check_redeem this = Inl (AssertionError ''Cannot sign ScriptHash without redeem.'')"
  by (simp add: check_redeem_def)

lemma check_redeem_passes:
  "coin this = Some c \<Longrightarrow> redeem this = Some s \<Longrightarrow> check_redeem this = Inr this"
  by (simp add: check_redeem_def)

lemma set_coin_init:
  "coin this = None \<Longrightarrow> opt_coin options = IsCoin c \<Longrightarrow>
   set_coin options this = Inr (this\<lparr>coin := Some c\<rparr>)"
  by (simp add: set_coin_def)

lemma scripthash_without_redeem_never_constructs:
  assumes "opt_coin options = IsCoin c" and "isScripthash (address c)"
    and "opt_redeem options = None"
  shows "LedgerInput_fromOptions X (Some options) \<noteq> Inr this"
proof
  assume ok: "LedgerInput_fromOptions X (Some options) = Inr this"
  then obtain t1 t2 t3 t4 t5 where
      1: "set_path X options LedgerInput_init = Inr t1"
    and 2: "set_type options t1 = Inr t2"
    and 3: "set_redeem options t2 = Inr t3"
    and 4: "set_coin options t3 = Inr t4"
    and 5: "set_publicKey options t4 = Inr t5"
    and 6: "check_redeem t5 = Inr this"
    unfolding LedgerInput_fromOptions_def fromOptions_def
    by (auto simp: andThen_eq_Inr)
  from 1 have "coin t1 = None \<and> redeem t1 = None"
    by (auto simp: set_path_def LedgerInput_init_def split: if_splits path_value.splits sum.splits)
  with 2 have "coin t2 = None \<and> redeem t2 = None"
    by (auto simp: set_type_def split: option.splits if_splits)
  with 3 assms(3) have "coin t3 = None \<and> redeem t3 = None"
    by (auto simp: set_redeem_def)
  with 4 assms(1) have "coin t4 = Some c \<and> redeem t4 = None"
    by (auto simp: set_coin_def)
  with 5 have "coin t5 = Some c \<and> redeem t5 = None"
    by (auto simp: set_publicKey_def split: option.splits key_value.splits)
  with 6 assms(2) show False
    by (simp add: check_redeem_def)
qed

lemma set_type_accepted:
  "opt_type options \<noteq> Some hashType_ALL \<Longrightarrow> \<exists>t. set_type options this = Inr (this\<lparr>type := t\<rparr>)"
proof (cases "opt_type options")
  case None
  have "this = this\<lparr>type := type this\<rparr>" by simp
  with None show ?thesis
    unfolding set_type_def by (metis option.simps(4))
next
  case (Some t)
  assume "opt_type options \<noteq> Some hashType_ALL"
  with Some show ?thesis by (auto simp: set_type_def)
qed

text \<open>
  The redeem check of \<^verbatim>\<open>fromOptions\<close> in general, for a script-hash coin. Without a
  redeem script, construction never succeeds, and when the checks before it pass the
  exception is the redeem-required assertion; with a redeem script, given as a script or
  as the buffer of its raw bytes, and the checks before it passing, construction succeeds
  and the input holds that coin and that script. The sighash check is one of the checks
  before it, and it passes when no type is given or when the type is not
  \<^verbatim>\<open>SIGHASH_ALL\<close>.
\<close>

lemma fromOptions_scripthash_redeem:
  assumes "opt_coin options = IsCoin c" and "isScripthash (address c)"
  shows "(opt_redeem options = None \<longrightarrow>
            (\<exists>e. LedgerInput_fromOptions X (Some options) = Inl e))
       \<and> (opt_redeem options = None \<and> rest_valid X options \<longrightarrow>
            LedgerInput_fromOptions X (Some options)
              = Inl (AssertionError ''Cannot sign ScriptHash without redeem.''))
       \<and> (\<forall>s. (opt_redeem options = Some (RedeemScript s)
                 \<or> opt_redeem options = Some (RedeemBuffer (raw s)))
               \<and> rest_valid X options \<longrightarrow>
            (\<exists>this. LedgerInput_fromOptions X (Some options) = Inr this
                   \<and> coin this = Some c \<and> redeem this = Some s))"
proof (intro conjI impI allI)
  assume "opt_redeem options = None"
  then have "\<forall>this. LedgerInput_fromOptions X (Some options) \<noteq> Inr this"
    using scripthash_without_redeem_never_constructs [OF assms] by blast
  then show "\<exists>e. LedgerInput_fromOptions X (Some options) = Inl e"
    by (cases "LedgerInput_fromOptions X (Some options)") auto
next
  assume h: "opt_redeem options = None \<and> rest_valid X options"
  then obtain p where p: "set_path X options LedgerInput_init = Inr (LedgerInput_init\<lparr>path := p\<rparr>)"
    using set_path_accepted unfolding rest_valid_def by blast
  let ?t1 = "LedgerInput_init\<lparr>path := p\<rparr>"
  obtain t where 2: "set_type options ?t1 = Inr (?t1\<lparr>type := t\<rparr>)"
    using set_type_accepted h unfolding rest_valid_def by blast
  let ?t2 = "?t1\<lparr>type := t\<rparr>"
  have 3: "set_redeem options ?t2 = Inr ?t2"
    using h by (simp add: set_redeem_def)
  have 4: "set_coin options ?t2 = Inr (?t2\<lparr>coin := Some c\<rparr>)"
    using assms(1) by (simp add: set_coin_def LedgerInput_init_def)
  obtain k where 5: "set_publicKey options (?t2\<lparr>coin := Some c\<rparr>)
      = Inr (?t2\<lparr>coin := Some c, publicKey := k\<rparr>)"
    using set_publicKey_accepted h unfolding rest_valid_def by blast
  have 6: "check_redeem (?t2\<lparr>coin := Some c, publicKey := k\<rparr>)
      = Inl (AssertionError ''Cannot sign ScriptHash without redeem.'')"
    using assms(2) by (simp add: check_redeem_def LedgerInput_init_def)
  show "LedgerInput_fromOptions X (Some options)
      = Inl (AssertionError ''Cannot sign ScriptHash without redeem.'')"
    by (simp add: LedgerInput_fromOptions_def fromOptions_def p 2 3 4 5 6)
next
  fix s
  assume h: "(opt_redeem options = Some (RedeemScript s)
              \<or> opt_redeem options = Some (RedeemBuffer (raw s)))
             \<and> rest_valid X options"
  then obtain p where p: "set_path X options LedgerInput_init = Inr (LedgerInput_init\<lparr>path := p\<rparr>)"
    using set_path_accepted unfolding rest_valid_def by blast
  let ?t1 = "LedgerInput_init\<lparr>path := p\<rparr>"
  obtain t where 2: "set_type options ?t1 = Inr (?t1\<lparr>type := t\<rparr>)"
    using set_type_accepted h unfolding rest_valid_def by blast
  let ?t2 = "?t1\<lparr>type := t\<rparr>"
  have 3: "set_redeem options ?t2 = Inr (?t2\<lparr>redeem := Some s\<rparr>)"
    using h by (auto simp: set_redeem_def)
  have 4: "set_coin options (?t2\<lparr>redeem := Some s\<rparr>) = Inr (?t2\<lparr>redeem := Some s, coin := Some c\<rparr>)"
    using assms(1) by (simp add: set_coin_def LedgerInput_init_def)
  obtain k where 5: "set_publicKey options (?t2\<lparr>redeem := Some s, coin := Some c\<rparr>)
      = Inr (?t2\<lparr>redeem := Some s, coin := Some c, publicKey := k\<rparr>)"
    using set_publicKey_accepted h unfolding rest_valid_def by blast
  have 6: "check_redeem (?t2\<lparr>redeem := Some s, coin := Some c, publicKey := k\<rparr>)
      = Inr (?t2\<lparr>redeem := Some s, coin := Some c, publicKey := k\<rparr>)"
    by (simp add: check_redeem_def)
  show "\<exists>this. LedgerInput_fromOptions X (Some options) = Inr this
      \<and> coin this = Some c \<and> redeem this = Some s"
    by (simp add: LedgerInput_fromOptions_def fromOptions_def p 2 3 4 5 6)
qed

text \<open>
  Claim C7, evaluated on the code. The claim wants construction for a script-hash coin to
  succeed when a redeem script is given and the other invariants hold, and to fail with the
  redeem-required error when none is given. \<^verbatim>\<open>SIGHASH_ALL\<close> is the one sighash type the
  other invariants admit, and the assertion of lines 107 to 113, which runs before the
  redeem check of lines 133 and 134, refuses exactly that type. So with the type
  \<^verbatim>\<open>SIGHASH_ALL\<close> named, the options for a script-hash coin and the redeem script
  \<open>[0x51]\<close> are refused with \<^verbatim>\<open>Ledger only supports SIGHASH_ALL\<close>, and without the
  redeem script the exception is that one too, not the redeem-required assertion. The same
  two options objects without the type are accepted, and refused with the redeem-required
  assertion, as the claim says.
\<close>

theorem fromOptions_scripthash_type_ALL:
  "LedgerInput_fromOptions hsd_sample
      (Some (options_sample\<lparr>opt_coin := IsCoin coin_scripthash,
                             opt_redeem := Some (RedeemScript (Script [0x51])),
                             opt_type := Some hashType_ALL\<rparr>))
     = Inl (AssertionError ''Ledger only supports SIGHASH_ALL'')
   \<and> LedgerInput_fromOptions hsd_sample
      (Some (options_sample\<lparr>opt_coin := IsCoin coin_scripthash,
                             opt_type := Some hashType_ALL\<rparr>))
     = Inl (AssertionError ''Ledger only supports SIGHASH_ALL'')
   \<and> LedgerInput_fromOptions hsd_sample
      (Some (options_sample\<lparr>opt_coin := IsCoin coin_scripthash,
                             opt_redeem := Some (RedeemScript (Script [0x51]))\<rparr>))
     = Inr (LedgerInput_init\<lparr>path := [44, 5353, 0, 0, 0], redeem := Some (Script [0x51]),
                             coin := Some coin_scripthash\<rparr>)
   \<and> LedgerInput_fromOptions hsd_sample
      (Some (options_sample\<lparr>opt_coin := IsCoin coin_scripthash\<rparr>))
     = Inl (AssertionError ''Cannot sign ScriptHash without redeem.'')"
  by (simp add: LedgerInput_fromOptions_def fromOptions_def set_path_def set_type_def
      set_redeem_def set_coin_def set_publicKey_def check_redeem_def options_sample_def
      hashType_ALL_def coin_scripthash_def LedgerInput_init_def)

subsection \<open>The key ring\<close>

text \<open>
  Claim C8. With \<^verbatim>\<open>publicKey\<close> null, \<^verbatim>\<open>getRing\<close> throws the
  \<^verbatim>\<open>LedgerError\<close> and changes nothing, whatever the cache holds. With a public key
  and an empty cache, the ring is the one \<^verbatim>\<open>KeyRing.fromPublic\<close> makes from that key
  and the network, with the redeem script attached when there is one; it is stored, and
  every later call returns the stored ring, for any network argument. With a ring already
  stored the call returns it.
\<close>

theorem getRing_publicKey:
  "(publicKey this = None \<longrightarrow>
      getRing X this n = (Inl (LedgerError ''Cannot return ring without public key''), this))
   \<and> (\<forall>pk r0 r.
        publicKey this = Some pk \<and> cache_ring this = None
        \<and> KeyRing_fromPublic X pk (case n of None \<Rightarrow> Network_primary X | Some m \<Rightarrow> m) = Inr r0
        \<and> r = (case redeem this of None \<Rightarrow> r0 | Some s \<Rightarrow> r0\<lparr>ring_script := Some s\<rparr>)
        \<longrightarrow> getRing X this n = (Inr r, this\<lparr>cache_ring := Some r\<rparr>)
            \<and> (\<forall>n'. getRing X (this\<lparr>cache_ring := Some r\<rparr>) n'
                       = (Inr r, this\<lparr>cache_ring := Some r\<rparr>)))
   \<and> (\<forall>pk r. publicKey this = Some pk \<and> cache_ring this = Some r \<longrightarrow>
        getRing X this n = (Inr r, this))"
  by (auto simp: getRing_def Let_def split: option.splits)

text \<open>
  An instance: the sample input has no public key and gets the error; with a key of 33
  bytes it gets the ring made from that key on the primary network.
\<close>

theorem getRing_publicKey_witness:
  "getRing hsd_sample input_sample None
     = (Inl (LedgerError ''Cannot return ring without public key''), input_sample)
   \<and> fst (getRing hsd_sample (input_sample\<lparr>publicKey := Some (replicate 33 2)\<rparr>) None)
     = Inr \<lparr> ring_publicKey = replicate 33 2, ring_network = Network ''main'',
             ring_script = None \<rparr>"
proof -
  let ?k = "input_sample\<lparr>publicKey := Some (replicate 33 2)\<rparr>"
  let ?r = "\<lparr> ring_publicKey = replicate 33 2, ring_network = Network ''main'',
             ring_script = None \<rparr>"
  have a: "publicKey input_sample = None"
    by (simp add: input_sample_def LedgerInput_init_def)
  have b: "publicKey ?k = Some (replicate 33 2) \<and> cache_ring ?k = None
        \<and> KeyRing_fromPublic hsd_sample (replicate 33 2)
            (case None of None \<Rightarrow> Network_primary hsd_sample | Some m \<Rightarrow> m) = Inr ?r
        \<and> ?r = (case redeem ?k of None \<Rightarrow> ?r | Some s \<Rightarrow> ?r\<lparr>ring_script := Some s\<rparr>)"
    by (simp add: input_sample_def LedgerInput_init_def hsd_sample_def)
  from getRing_publicKey [of input_sample hsd_sample None] a
  have 1: "getRing hsd_sample input_sample None
     = (Inl (LedgerError ''Cannot return ring without public key''), input_sample)"
    by blast
  from getRing_publicKey [of ?k hsd_sample None] b
  have "getRing hsd_sample ?k None = (Inr ?r, ?k\<lparr>cache_ring := Some ?r\<rparr>)"
    by blast
  then have 2: "fst (getRing hsd_sample ?k None) = Inr ?r"
    by simp
  from 1 2 show ?thesis by (rule conjI)
qed

subsection \<open>The previous-redeem script\<close>

text \<open>
  \<^verbatim>\<open>getPrevRedeem\<close> on an input whose previous-redeem cache is empty: it returns and
  stores \<^verbatim>\<open>this.redeem\<close> when the coin's address is script-hash, and otherwise returns
  what \<^verbatim>\<open>getPrev\<close> returns (its script, or its exception). Once a call has returned a
  script, the next call on the resulting object returns the same script and leaves the
  object as it is, so every later call does, whatever has been assigned to the input's
  fields in between.
\<close>

lemma getPrevRedeem_empty_cache:
  "(\<forall>c. cache_prevred this = None \<and> coin this = Some c \<and> isScripthash (address c) \<longrightarrow>
        getPrevRedeem X this = (Inr (redeem this), this\<lparr>cache_prevred := redeem this\<rparr>))
   \<and> (\<forall>c. cache_prevred this = None \<and> coin this = Some c \<and> \<not> isScripthash (address c) \<longrightarrow>
        fst (getPrevRedeem X this) = map_sum id Some (fst (getPrev X this)))
   \<and> (\<forall>s this'. getPrevRedeem X this = (Inr (Some s), this') \<longrightarrow>
        cache_prevred this' = Some s \<and> getPrevRedeem X this' = (Inr (Some s), this'))"
proof (intro conjI allI impI)
  fix c
  assume "cache_prevred this = None \<and> coin this = Some c \<and> isScripthash (address c)"
  then show "getPrevRedeem X this = (Inr (redeem this), this\<lparr>cache_prevred := redeem this\<rparr>)"
    by (simp add: getPrevRedeem_def)
next
  fix c
  assume "cache_prevred this = None \<and> coin this = Some c \<and> \<not> isScripthash (address c)"
  then show "fst (getPrevRedeem X this) = map_sum id Some (fst (getPrev X this))"
    by (cases "getPrev X this"; cases "fst (getPrev X this)") (auto simp: getPrevRedeem_def)
next
  fix s this'
  assume r: "getPrevRedeem X this = (Inr (Some s), this')"
  then show "cache_prevred this' = Some s"
    by (auto simp: getPrevRedeem_def split: option.splits if_splits prod.splits sum.splits)
  then show "getPrevRedeem X this' = (Inr (Some s), this')"
    by (simp add: getPrevRedeem_def)
qed

lemma getPrevRedeem_cached:
  "cache_prevred this = Some s \<Longrightarrow> getPrevRedeem X this = (Inr (Some s), this)"
  by (simp add: getPrevRedeem_def)

subsection \<open>Reset\<close>

lemma refresh_clears:
  "cache_ring (refresh this) = None \<and> cache_key (refresh this) = []
   \<and> cache_prev (refresh this) = None \<and> cache_outpoint (refresh this) = None
   \<and> cache_coin (refresh this) = None"
  by (simp add: refresh_def)

lemma refresh_prevred: "cache_prevred (refresh this) = cache_prevred this"
  by (simp add: refresh_def)

text \<open>
  Claim C3, evaluated on the code. \<^verbatim>\<open>refresh()\<close> assigns \<^verbatim>\<open>_coin\<close>,
  \<^verbatim>\<open>_ring\<close>, \<^verbatim>\<open>_key\<close>, \<^verbatim>\<open>_prev\<close> and \<^verbatim>\<open>_outpoint\<close>; it does not
  assign \<^verbatim>\<open>_prevred\<close>. An input for a script-hash coin with redeem script \<open>[0x51]\<close>
  is asked for its previous-redeem script, then given the redeem script \<open>[0x52]\<close> and
  reset: the reset leaves the previous-redeem cache as it was, and the next
  \<^verbatim>\<open>getPrevRedeem\<close> returns the old script \<open>[0x51]\<close>, not the current redeem script.
\<close>

theorem refresh_keeps_prevred:
  "(let this0 = input_sample\<lparr>coin := Some coin_scripthash, redeem := Some (Script [0x51])\<rparr>;
        this1 = snd (getPrevRedeem hsd_sample this0);
        this2 = refresh (this1\<lparr>redeem := Some (Script [0x52])\<rparr>)
    in fst (getPrevRedeem hsd_sample this0) = Inr (Some (Script [0x51]))
       \<and> redeem this2 = Some (Script [0x52])
       \<and> cache_prev this2 = None \<and> cache_ring this2 = None
       \<and> cache_prevred this2 = Some (Script [0x51])
       \<and> getPrevRedeem hsd_sample this2 = (Inr (Some (Script [0x51])), this2))"
  by (simp add: Let_def getPrevRedeem_def refresh_def input_sample_def LedgerInput_init_def
      coin_scripthash_def)

text \<open>
  Claim C9, evaluated on the code. The claim wants the previous-redeem script to be the
  redeem script exactly when the coin is script-hash, and else the script \<^verbatim>\<open>getPrev\<close>
  returns, memoized until a reset. A reset does not end the memoization: \<^verbatim>\<open>refresh()\<close>
  leaves \<^verbatim>\<open>_prevred\<close> as it is, and \<^verbatim>\<open>getPrevRedeem\<close> returns a stored script before
  it looks at the coin. An input for a pay-to-public-key-hash coin is made by the static
  \<^verbatim>\<open>fromOptions\<close> with a public key of 33 bytes \<open>0x02\<close> and asked for its
  previous-redeem script. Then it is given a public key of 33 bytes \<open>0x03\<close> by the
  method \<^verbatim>\<open>fromOptions\<close> and reset: \<^verbatim>\<open>getPrev\<close> now returns the script of the new
  key, and \<^verbatim>\<open>getPrevRedeem\<close> the script of the old one. Or it is given a script-hash
  coin and the redeem script \<open>[0x51]\<close> and reset: \<^verbatim>\<open>getPrevRedeem\<close> returns the
  script of the old key, not the redeem script.
\<close>

theorem getPrevRedeem_stale_after_reset:
  "(let this0 = input_sample\<lparr>publicKey := Some (replicate 33 2)\<rparr>;
        this1 = snd (getPrevRedeem hsd_sample this0);
        this2 = refresh (fromOptions_after hsd_sample this1
                  (Some (options_sample\<lparr>opt_publicKey := Some (KeyBuffer (replicate 33 3))\<rparr>)));
        this3 = refresh (this1\<lparr>coin := Some coin_scripthash, redeem := Some (Script [0x51])\<rparr>)
    in LedgerInput_fromOptions hsd_sample
         (Some (options_sample\<lparr>opt_publicKey := Some (KeyBuffer (replicate 33 2))\<rparr>)) = Inr this0
       \<and> fst (getPrevRedeem hsd_sample this0)
           = Inr (Some (Script ([0x76, 0xc0] @ replicate 20 2)))
       \<and> coin this2 = Some coin_pubkeyhash \<and> publicKey this2 = Some (replicate 33 3)
       \<and> fst (getPrev hsd_sample this2) = Inr (Script ([0x76, 0xc0] @ replicate 20 3))
       \<and> getPrevRedeem hsd_sample this2
           = (Inr (Some (Script ([0x76, 0xc0] @ replicate 20 2))), this2)
       \<and> coin this3 = Some coin_scripthash \<and> redeem this3 = Some (Script [0x51])
       \<and> getPrevRedeem hsd_sample this3
           = (Inr (Some (Script ([0x76, 0xc0] @ replicate 20 2))), this3))"
  by (simp add: Let_def getPrevRedeem_def getPrev_def getRing_def refresh_def
      fromOptions_after_def LedgerInput_fromOptions_def fromOptions_def
      set_path_def set_type_def set_redeem_def set_coin_def set_publicKey_def check_redeem_def
      options_sample_def input_sample_def LedgerInput_init_def hsd_sample_def
      coin_pubkeyhash_def coin_scripthash_def)

subsection \<open>The previous script of an input the class produced\<close>

lemma kept_refl: "kept this this"
  by (simp add: kept_def split: option.splits)

lemma kept_trans: "kept a b \<Longrightarrow> kept b c \<Longrightarrow> kept a c"
  by (auto simp: kept_def split: option.splits)

lemma set_path_kept: "set_path X options this = Inr t \<Longrightarrow> kept this t"
  by (auto simp: set_path_def kept_def split: if_splits path_value.splits sum.splits option.splits)

lemma set_type_kept: "set_type options this = Inr t \<Longrightarrow> kept this t"
  by (auto simp: set_type_def kept_def split: option.splits if_splits)

lemma set_redeem_kept: "set_redeem options this = Inr t \<Longrightarrow> kept this t"
  by (auto simp: set_redeem_def kept_def split: option.splits redeem_value.splits)

lemma set_coin_kept: "set_coin options this = Inr t \<Longrightarrow> kept this t"
  by (auto simp: set_coin_def kept_def split: option.splits coin_value.splits)

lemma set_publicKey_kept: "set_publicKey options this = Inr t \<Longrightarrow> kept this t"
  by (auto simp: set_publicKey_def kept_def split: option.splits key_value.splits)

lemma check_redeem_same: "check_redeem this = Inr t \<Longrightarrow> t = this"
  by (auto simp: check_redeem_def split: option.splits if_splits)

lemma fromOptions_after_kept: "kept this (fromOptions_after X this opts)"
proof (cases opts)
  case None
  then show ?thesis by (simp add: fromOptions_after_def kept_refl)
next
  case (Some options)
  show ?thesis
  proof (cases "set_path X options this")
    case (Inl e)
    with Some show ?thesis by (simp add: fromOptions_after_def kept_refl)
  next
    case 1: (Inr t1)
    then have k1: "kept this t1" by (rule set_path_kept)
    show ?thesis
    proof (cases "set_type options t1")
      case (Inl e)
      with Some 1 k1 show ?thesis by (simp add: fromOptions_after_def)
    next
      case 2: (Inr t2)
      then have k2: "kept this t2" using k1 set_type_kept kept_trans by blast
      show ?thesis
      proof (cases "set_redeem options t2")
        case (Inl e)
        with Some 1 2 k2 show ?thesis by (simp add: fromOptions_after_def)
      next
        case 3: (Inr t3)
        then have k3: "kept this t3" using k2 set_redeem_kept kept_trans by blast
        show ?thesis
        proof (cases "set_coin options t3")
          case (Inl e)
          with Some 1 2 3 k3 show ?thesis by (simp add: fromOptions_after_def)
        next
          case 4: (Inr t4)
          then have k4: "kept this t4" using k3 set_coin_kept kept_trans by blast
          show ?thesis
          proof (cases "set_publicKey options t4")
            case (Inl e)
            with Some 1 2 3 4 k4 show ?thesis by (simp add: fromOptions_after_def)
          next
            case 5: (Inr t5)
            then have "kept this t5" using k4 set_publicKey_kept kept_trans by blast
            with Some 1 2 3 4 5 show ?thesis by (simp add: fromOptions_after_def)
          qed
        qed
      qed
    qed
  qed
qed

lemma fromOptions_after_returned:
  assumes "fromOptions X this opts = Inr this'"
  shows "fromOptions_after X this opts = this'"
proof -
  from assms obtain options t1 t2 t3 t4 t5 where
      0: "opts = Some options"
    and 1: "set_path X options this = Inr t1"
    and 2: "set_type options t1 = Inr t2"
    and 3: "set_redeem options t2 = Inr t3"
    and 4: "set_coin options t3 = Inr t4"
    and 5: "set_publicKey options t4 = Inr t5"
    and 6: "check_redeem t5 = Inr this'"
    unfolding fromOptions_def
    by (auto simp: andThen_eq_Inr split: option.splits)
  from 6 have "this' = t5" by (rule check_redeem_same)
  with 0 1 2 3 4 5 show ?thesis by (simp add: fromOptions_after_def)
qed

lemma cache_ring_self: "\<exists>r. (t::LedgerInput) = t\<lparr>cache_ring := r\<rparr>"
  by (rule exI [of _ "cache_ring t"]) simp

lemma getRing_frame:
  assumes g: "getRing X this n = (res, this')"
  shows "(\<exists>r. this' = this\<lparr>cache_ring := r\<rparr>) \<and> (publicKey this = None \<longrightarrow> (\<exists>e. res = Inl e))"
proof (cases "publicKey this")
  case None
  with g have "this' = this" and "\<exists>e. res = Inl e"
    by (auto simp: getRing_def Let_def)
  with cache_ring_self [of this] show ?thesis by simp
next
  case pk: (Some pk)
  show ?thesis
  proof (cases "cache_ring this")
    case (Some r)
    with g pk have "this' = this"
      by (auto simp: getRing_def Let_def)
    with cache_ring_self [of this] pk show ?thesis by simp
  next
    case None
    show ?thesis
    proof (cases "KeyRing_fromPublic X pk (case n of None \<Rightarrow> Network_primary X | Some m \<Rightarrow> m)")
      case (Inl e)
      with g pk None have "this' = this"
        by (auto simp: getRing_def Let_def)
      with cache_ring_self [of this] pk show ?thesis by simp
    next
      case (Inr r0)
      with g pk None show ?thesis
        by (auto simp: getRing_def Let_def)
    qed
  qed
qed

lemma getPrev_frame:
  "coin (snd (getPrev X this)) = coin this \<and> publicKey (snd (getPrev X this)) = publicKey this
   \<and> script (snd (getPrev X this)) = script this
   \<and> cache_prevred (snd (getPrev X this)) = cache_prevred this"
proof -
  obtain res t where g: "getRing X this None = (res, t)" by (cases "getRing X this None")
  from getRing_frame [OF g] obtain r0 where t: "t = this\<lparr>cache_ring := r0\<rparr>" by auto
  with g show ?thesis
    by (cases res) (auto simp: getPrev_def Let_def split: option.splits)
qed

lemma getPrev_without_key:
  assumes "script this = None" and "cache_prev this = None" and "publicKey this = None"
  shows "getPrev X this = (Inl (LedgerError ''Cannot return ring without public key''), this)"
  using assms by (simp add: getPrev_def getRing_def Let_def)

lemma fromOptions_after_script: "script (fromOptions_after X this opts) = script this"
  using fromOptions_after_kept [of this X opts] by (simp add: kept_def)

lemma fromOptions_script:
  assumes "fromOptions X this opts = Inr this'"
  shows "script this' = script this"
  using fromOptions_after_returned [OF assms] fromOptions_after_script [of X this opts] by simp

lemma getOutpoint_script: "script (snd (getOutpoint this)) = script this"
  by (auto simp: getOutpoint_def Let_def split: option.splits)

lemma toKey_script: "script (snd (toKey X this)) = script this"
  by (auto simp: toKey_def getOutpoint_def Let_def split: option.splits)

lemma getRing_script: "script (snd (getRing X this n)) = script this"
  using getRing_frame [of X this n "fst (getRing X this n)" "snd (getRing X this n)"]
  by auto

lemma getPrevRedeem_script: "script (snd (getPrevRedeem X this)) = script this"
proof (cases "getPrev X this")
  case (Pair res t)
  with getPrev_frame [of X this] have "script t = script this" by simp
  with Pair show ?thesis
    by (cases res) (auto simp: getPrevRedeem_def split: option.splits)
qed

text \<open>
  Nothing the class or its callers do assigns the \<^verbatim>\<open>script\<close> property.
\<close>

lemma reachable_script: "reachable X this \<Longrightarrow> script this = None"
proof (induction rule: reachable.induct)
  case (by_new opts this)
  then show ?case
    by (auto simp: LedgerInput_new_def LedgerInput_init_def split: option.splits
        dest: fromOptions_script)
next
  case (by_static opts this)
  then show ?case
    by (auto simp: LedgerInput_fromOptions_def LedgerInput_init_def dest: fromOptions_script)
next
  case (by_fromOptions this opts)
  then show ?case by (simp add: fromOptions_after_script)
next
  case (by_getOutpoint this)
  then show ?case by (simp add: getOutpoint_script)
next
  case (by_toKey this)
  then show ?case by (simp add: toKey_script)
next
  case (by_getRing this n)
  then show ?case by (simp add: getRing_script)
next
  case (by_getPrev this)
  then show ?case by (simp add: getPrev_frame)
next
  case (by_getPrevRedeem this)
  then show ?case by (simp add: getPrevRedeem_script)
next
  case (by_refresh this)
  then show ?case by (simp add: refresh_def)
next
  case (by_path this p)
  then show ?case by simp
next
  case (by_coin this c)
  then show ?case by simp
next
  case (by_redeem this r)
  then show ?case by simp
next
  case (by_publicKey this k)
  then show ?case by simp
next
  case (by_type this t)
  then show ?case by simp
qed

text \<open>
  Claim C10. The claim has \<^verbatim>\<open>getPrev\<close> and \<^verbatim>\<open>getPrevRedeem\<close> throw whenever
  \<^verbatim>\<open>publicKey\<close> is null. Both return a script they have stored before they look at
  anything else, so an input whose \<^verbatim>\<open>publicKey\<close> became null after a script was stored
  goes on returning it, as the last theorem of this subsection shows. What holds is this.
  Take any input the class and its callers produced whose coin is not script-hash. Its
  \<^verbatim>\<open>script\<close> property is unset, so \<^verbatim>\<open>getPrev\<close> never takes the branch that returns
  it. With no previous script stored, \<^verbatim>\<open>getPrev\<close> throws the \<^verbatim>\<open>LedgerError\<close> of
  \<^verbatim>\<open>getRing\<close> when \<^verbatim>\<open>publicKey\<close> is null and leaves the input as it is; with a
  public key it returns and stores \<^verbatim>\<open>Script.fromPubkeyhash\<close> of the key hash of the
  input's ring, which is the stored ring, or else the ring \<^verbatim>\<open>KeyRing.fromPublic\<close>
  makes from that public key on the primary network with the redeem script attached; if
  \<^verbatim>\<open>KeyRing.fromPublic\<close> throws, so does \<^verbatim>\<open>getPrev\<close>. With no previous-redeem
  script stored, \<^verbatim>\<open>getPrevRedeem\<close> returns and stores the script \<^verbatim>\<open>getPrev\<close>
  returns and throws what it throws. A stored script is returned as it is.
\<close>

theorem getPrev_synthesizes_from_ring:
  assumes "reachable X this" and "coin this = Some c" and "\<not> isScripthash (address c)"
  shows "script this = None
     \<and> (\<forall>s. cache_prev this = Some s \<longrightarrow> getPrev X this = (Inr s, this))
     \<and> (cache_prev this = None \<and> publicKey this = None \<longrightarrow>
          getPrev X this
            = (Inl (LedgerError ''Cannot return ring without public key''), this))
     \<and> (\<forall>pk r. cache_prev this = None \<and> publicKey this = Some pk \<and> cache_ring this = Some r
          \<longrightarrow> getPrev X this
                = (Inr (Script_fromPubkeyhash X (getKeyHash X r)),
                   this\<lparr>cache_prev := Some (Script_fromPubkeyhash X (getKeyHash X r))\<rparr>))
     \<and> (\<forall>pk r0 r. cache_prev this = None \<and> publicKey this = Some pk \<and> cache_ring this = None
          \<and> KeyRing_fromPublic X pk (Network_primary X) = Inr r0
          \<and> r = (case redeem this of None \<Rightarrow> r0 | Some s \<Rightarrow> r0\<lparr>ring_script := Some s\<rparr>)
          \<longrightarrow> getPrev X this
                = (Inr (Script_fromPubkeyhash X (getKeyHash X r)),
                   this\<lparr>cache_ring := Some r,
                        cache_prev := Some (Script_fromPubkeyhash X (getKeyHash X r))\<rparr>))
     \<and> (\<forall>pk e. cache_prev this = None \<and> publicKey this = Some pk \<and> cache_ring this = None
          \<and> KeyRing_fromPublic X pk (Network_primary X) = Inl e
          \<longrightarrow> getPrev X this = (Inl e, this))
     \<and> (\<forall>s. cache_prevred this = Some s \<longrightarrow> getPrevRedeem X this = (Inr (Some s), this))
     \<and> (cache_prevred this = None \<longrightarrow>
          getPrevRedeem X this
            = (case getPrev X this of
                 (Inl e, this') \<Rightarrow> (Inl e, this')
               | (Inr s, this') \<Rightarrow> (Inr (Some s), this'\<lparr>cache_prevred := Some s\<rparr>)))
     \<and> (cache_prevred this = None \<and> cache_prev this = None \<and> publicKey this = None \<longrightarrow>
          getPrevRedeem X this
            = (Inl (LedgerError ''Cannot return ring without public key''), this))"
proof -
  from assms(1) have sc: "script this = None"
    by (rule reachable_script)
  have cached: "\<forall>s. cache_prev this = Some s \<longrightarrow> getPrev X this = (Inr s, this)"
    by (simp add: getPrev_def)
  have nokey: "cache_prev this = None \<and> publicKey this = None \<longrightarrow>
      getPrev X this = (Inl (LedgerError ''Cannot return ring without public key''), this)"
    using sc by (simp add: getPrev_without_key)
  have ring: "\<forall>pk r. cache_prev this = None \<and> publicKey this = Some pk \<and> cache_ring this = Some r
      \<longrightarrow> getPrev X this
            = (Inr (Script_fromPubkeyhash X (getKeyHash X r)),
               this\<lparr>cache_prev := Some (Script_fromPubkeyhash X (getKeyHash X r))\<rparr>)"
    using sc by (simp add: getPrev_def getRing_def Let_def)
  have made: "\<forall>pk r0 r. cache_prev this = None \<and> publicKey this = Some pk
      \<and> cache_ring this = None
      \<and> KeyRing_fromPublic X pk (Network_primary X) = Inr r0
      \<and> r = (case redeem this of None \<Rightarrow> r0 | Some s \<Rightarrow> r0\<lparr>ring_script := Some s\<rparr>)
      \<longrightarrow> getPrev X this
            = (Inr (Script_fromPubkeyhash X (getKeyHash X r)),
               this\<lparr>cache_ring := Some r,
                    cache_prev := Some (Script_fromPubkeyhash X (getKeyHash X r))\<rparr>)"
    using sc by (simp add: getPrev_def getRing_def Let_def)
  have fails: "\<forall>pk e. cache_prev this = None \<and> publicKey this = Some pk
      \<and> cache_ring this = None
      \<and> KeyRing_fromPublic X pk (Network_primary X) = Inl e
      \<longrightarrow> getPrev X this = (Inl e, this)"
    using sc by (simp add: getPrev_def getRing_def Let_def)
  have redcached: "\<forall>s. cache_prevred this = Some s \<longrightarrow>
      getPrevRedeem X this = (Inr (Some s), this)"
    by (simp add: getPrevRedeem_def)
  have red: "cache_prevred this = None \<longrightarrow>
      getPrevRedeem X this
        = (case getPrev X this of
             (Inl e, this') \<Rightarrow> (Inl e, this')
           | (Inr s, this') \<Rightarrow> (Inr (Some s), this'\<lparr>cache_prevred := Some s\<rparr>))"
    using assms(2,3) by (simp add: getPrevRedeem_def)
  have rednokey: "cache_prevred this = None \<and> cache_prev this = None \<and> publicKey this = None
      \<longrightarrow> getPrevRedeem X this
        = (Inl (LedgerError ''Cannot return ring without public key''), this)"
    using red nokey by simp
  from sc cached nokey ring made fails redcached red rednokey show ?thesis
    by (intro conjI)
qed

text \<open>
  An instance: the input made from the sample options has no public key, and both getters
  throw; the same input made with a public key of 33 bytes \<open>0x02\<close> returns and stores
  the script made from the first twenty bytes of that key, under the ring made from the
  key; and asked again, it returns the stored script.
\<close>

theorem getPrev_synthesizes_from_ring_witness:
  "reachable hsd_sample input_sample
   \<and> coin input_sample = Some coin_pubkeyhash
   \<and> publicKey input_sample = None
   \<and> script input_sample = None
   \<and> getPrev hsd_sample input_sample
       = (Inl (LedgerError ''Cannot return ring without public key''), input_sample)
   \<and> getPrevRedeem hsd_sample input_sample
       = (Inl (LedgerError ''Cannot return ring without public key''), input_sample)
   \<and> reachable hsd_sample input_keyed
   \<and> getPrev hsd_sample input_keyed
       = (Inr (Script ([0x76, 0xc0] @ replicate 20 2)),
          input_keyed\<lparr>cache_ring := Some \<lparr> ring_publicKey = replicate 33 2,
                                           ring_network = Network ''main'',
                                           ring_script = None \<rparr>,
                      cache_prev := Some (Script ([0x76, 0xc0] @ replicate 20 2))\<rparr>)
   \<and> getPrevRedeem hsd_sample (snd (getPrevRedeem hsd_sample input_keyed))
       = (Inr (Some (Script ([0x76, 0xc0] @ replicate 20 2))),
          snd (getPrevRedeem hsd_sample input_keyed))"
proof -
  let ?r = "\<lparr> ring_publicKey = replicate 33 2, ring_network = Network ''main'',
             ring_script = None \<rparr>"
  let ?s = "Script ([0x76, 0xc0] @ replicate 20 2)"
  let ?c = "snd (getPrevRedeem hsd_sample input_keyed)"
  have "LedgerInput_fromOptions hsd_sample (Some options_sample) = Inr input_sample"
    by (simp add: LedgerInput_fromOptions_def fromOptions_def set_path_def set_type_def
        set_redeem_def set_coin_def set_publicKey_def check_redeem_def options_sample_def
        coin_pubkeyhash_def LedgerInput_init_def input_sample_def)
  then have r: "reachable hsd_sample input_sample"
    by (rule reachable.by_static)
  have c: "coin input_sample = Some coin_pubkeyhash"
    by (simp add: input_sample_def)
  have n: "\<not> isScripthash (address coin_pubkeyhash)"
    by (simp add: coin_pubkeyhash_def)
  have k: "publicKey input_sample = None \<and> cache_prev input_sample = None
      \<and> cache_prevred input_sample = None"
    by (simp add: input_sample_def LedgerInput_init_def)
  from getPrev_synthesizes_from_ring [OF r c n] k r c
  have a: "reachable hsd_sample input_sample
   \<and> coin input_sample = Some coin_pubkeyhash
   \<and> publicKey input_sample = None
   \<and> script input_sample = None
   \<and> getPrev hsd_sample input_sample
       = (Inl (LedgerError ''Cannot return ring without public key''), input_sample)
   \<and> getPrevRedeem hsd_sample input_sample
       = (Inl (LedgerError ''Cannot return ring without public key''), input_sample)"
    by simp
  from r have rk: "reachable hsd_sample input_keyed"
    unfolding input_keyed_def by (rule reachable.by_publicKey)
  have ck: "coin input_keyed = Some coin_pubkeyhash"
    by (simp add: input_keyed_def input_sample_def)
  have hk: "cache_prev input_keyed = None \<and> publicKey input_keyed = Some (replicate 33 2)
      \<and> cache_ring input_keyed = None
      \<and> KeyRing_fromPublic hsd_sample (replicate 33 2) (Network_primary hsd_sample) = Inr ?r
      \<and> ?r = (case redeem input_keyed of None \<Rightarrow> ?r | Some s \<Rightarrow> ?r\<lparr>ring_script := Some s\<rparr>)"
    by (simp add: input_keyed_def input_sample_def LedgerInput_init_def hsd_sample_def)
  have sk: "Script_fromPubkeyhash hsd_sample (getKeyHash hsd_sample ?r) = ?s"
    by (simp add: hsd_sample_def)
  from getPrev_synthesizes_from_ring [OF rk ck n]
  have "\<forall>pk r0 r. cache_prev input_keyed = None \<and> publicKey input_keyed = Some pk
      \<and> cache_ring input_keyed = None
      \<and> KeyRing_fromPublic hsd_sample pk (Network_primary hsd_sample) = Inr r0
      \<and> r = (case redeem input_keyed of None \<Rightarrow> r0 | Some s \<Rightarrow> r0\<lparr>ring_script := Some s\<rparr>)
      \<longrightarrow> getPrev hsd_sample input_keyed
            = (Inr (Script_fromPubkeyhash hsd_sample (getKeyHash hsd_sample r)),
               input_keyed\<lparr>cache_ring := Some r,
                    cache_prev := Some (Script_fromPubkeyhash hsd_sample
                                          (getKeyHash hsd_sample r))\<rparr>)"
    by blast
  then have "cache_prev input_keyed = None \<and> publicKey input_keyed = Some (replicate 33 2)
      \<and> cache_ring input_keyed = None
      \<and> KeyRing_fromPublic hsd_sample (replicate 33 2) (Network_primary hsd_sample) = Inr ?r
      \<and> ?r = (case redeem input_keyed of None \<Rightarrow> ?r | Some s \<Rightarrow> ?r\<lparr>ring_script := Some s\<rparr>)
      \<longrightarrow> getPrev hsd_sample input_keyed
            = (Inr (Script_fromPubkeyhash hsd_sample (getKeyHash hsd_sample ?r)),
               input_keyed\<lparr>cache_ring := Some ?r,
                    cache_prev := Some (Script_fromPubkeyhash hsd_sample
                                          (getKeyHash hsd_sample ?r))\<rparr>)"
    by blast
  with hk have "getPrev hsd_sample input_keyed
            = (Inr (Script_fromPubkeyhash hsd_sample (getKeyHash hsd_sample ?r)),
               input_keyed\<lparr>cache_ring := Some ?r,
                    cache_prev := Some (Script_fromPubkeyhash hsd_sample
                                          (getKeyHash hsd_sample ?r))\<rparr>)"
    by blast
  then have b: "getPrev hsd_sample input_keyed
      = (Inr ?s, input_keyed\<lparr>cache_ring := Some ?r, cache_prev := Some ?s\<rparr>)"
    unfolding sk .
  from rk have rc: "reachable hsd_sample ?c"
    by (rule reachable.by_getPrevRedeem)
  have cc: "coin ?c = Some coin_pubkeyhash \<and> cache_prevred ?c = Some ?s"
    by (simp add: getPrevRedeem_def getPrev_def getRing_def Let_def input_keyed_def
        input_sample_def LedgerInput_init_def hsd_sample_def coin_pubkeyhash_def)
  from cc have cc1: "coin ?c = Some coin_pubkeyhash" by (rule conjunct1)
  from getPrev_synthesizes_from_ring [OF rc cc1 n]
  have "\<forall>s. cache_prevred ?c = Some s \<longrightarrow> getPrevRedeem hsd_sample ?c = (Inr (Some s), ?c)"
    by blast
  with cc have d: "getPrevRedeem hsd_sample ?c = (Inr (Some ?s), ?c)"
    by blast
  from a rk b d show ?thesis by blast
qed

text \<open>
  The claim as written fails on an input for a pay-to-public-key-hash coin that was asked
  for its previous-redeem script while it had a public key, and whose \<^verbatim>\<open>publicKey\<close>
  was then set to null: both getters return the stored script, and neither throws.
\<close>

theorem getPrev_cached_without_key:
  "reachable hsd_sample input_unkeyed
   \<and> coin input_unkeyed = Some coin_pubkeyhash
   \<and> isScripthash (address coin_pubkeyhash) = False
   \<and> publicKey input_unkeyed = None
   \<and> getPrev hsd_sample input_unkeyed
       = (Inr (Script ([0x76, 0xc0] @ replicate 20 2)), input_unkeyed)
   \<and> getPrevRedeem hsd_sample input_unkeyed
       = (Inr (Some (Script ([0x76, 0xc0] @ replicate 20 2))), input_unkeyed)"
proof -
  have "LedgerInput_fromOptions hsd_sample
          (Some (options_sample\<lparr>opt_publicKey := Some (KeyBuffer (replicate 33 2))\<rparr>))
      = Inr input_keyed"
    by (simp add: LedgerInput_fromOptions_def fromOptions_def set_path_def set_type_def
        set_redeem_def set_coin_def set_publicKey_def check_redeem_def options_sample_def
        coin_pubkeyhash_def LedgerInput_init_def input_sample_def input_keyed_def)
  then have "reachable hsd_sample input_keyed"
    by (rule reachable.by_static)
  then have "reachable hsd_sample (snd (getPrevRedeem hsd_sample input_keyed))"
    by (rule reachable.by_getPrevRedeem)
  then have r: "reachable hsd_sample input_unkeyed"
    unfolding input_unkeyed_def by (rule reachable.by_publicKey)
  have e: "coin input_unkeyed = Some coin_pubkeyhash
   \<and> isScripthash (address coin_pubkeyhash) = False
   \<and> publicKey input_unkeyed = None
   \<and> getPrev hsd_sample input_unkeyed
       = (Inr (Script ([0x76, 0xc0] @ replicate 20 2)), input_unkeyed)
   \<and> getPrevRedeem hsd_sample input_unkeyed
       = (Inr (Some (Script ([0x76, 0xc0] @ replicate 20 2))), input_unkeyed)"
    by (simp add: input_unkeyed_def input_keyed_def getPrevRedeem_def getPrev_def getRing_def
        Let_def input_sample_def LedgerInput_init_def hsd_sample_def coin_pubkeyhash_def)
  from r e show ?thesis by (rule conjI)
qed

section \<open>Properties of the protocol engine\<close>

subsection \<open>The transaction preamble\<close>

lemma length_le [simp]: "length (le k n) = k"
  by (simp add: le_def)

lemma length_varint [simp]: "length (varint num) = sizeVarint num"
  by (simp add: varint_def sizeVarint_def)

lemma writeBytes_fits:
  "length written + length bs \<le> size' \<Longrightarrow> writeBytes bs (size', written) = Inr (size', written @ bs)"
  by (simp add: writeBytes_def)

lemma length_input_bytes [simp]:
  "length (input_bytes input) = length (prevout input) + 4"
  by (simp add: input_bytes_def)

lemma length_output_bytes [simp]:
  "length (output_bytes out) = 8 + length (addr_raw (out_address out)) + length (covenant out)"
  by (simp add: output_bytes_def)

lemma write_inputs_fits:
  "length written + length (concat (map input_bytes ins)) \<le> size' \<Longrightarrow>
   write_inputs ins (size', written) = Inr (size', written @ concat (map input_bytes ins))"
proof (induction ins arbitrary: written)
  case Nil
  then show ?case by simp
next
  case (Cons input rest)
  let ?w1 = "written @ prevout input"
  let ?w2 = "?w1 @ le 4 (unat (sequence input))"
  from Cons.prems have b1: "length written + length (prevout input) \<le> size'"
    and b2: "length ?w1 + length (le 4 (unat (sequence input))) \<le> size'"
    and b3: "length ?w2 + length (concat (map input_bytes rest)) \<le> size'"
    by simp_all
  have "write_inputs (input # rest) (size', written) = write_inputs rest (size', ?w2)"
    by (simp only: write_inputs.simps writeU32_def writeBytes_fits [OF b1]
        writeBytes_fits [OF b2] andThen_Inr)
  also have "\<dots> = Inr (size', ?w2 @ concat (map input_bytes rest))"
    using b3 by (rule Cons.IH)
  finally show ?case by (simp add: input_bytes_def [of input])
qed

lemma writeU64_safe:
  "num \<le> MAX_SAFE_INTEGER \<Longrightarrow> writeU64 num bw = writeBytes (le 8 num) bw"
  by (simp add: writeU64_def)

lemma writeU64_unsafe:
  "MAX_SAFE_INTEGER < num \<Longrightarrow> writeU64 num bw = Inl (TypeError ''num must be a safe integer'')"
  by (simp add: writeU64_def)

lemma write_outputs_fits:
  "\<forall>out\<in>set outs. out_value out \<le> MAX_SAFE_INTEGER \<Longrightarrow>
   length written + length (concat (map output_bytes outs)) \<le> size' \<Longrightarrow>
   write_outputs outs (size', written) = Inr (size', written @ concat (map output_bytes outs))"
proof (induction outs arbitrary: written)
  case Nil
  then show ?case by simp
next
  case (Cons out rest)
  let ?w1 = "written @ le 8 (out_value out)"
  let ?w2 = "?w1 @ addr_raw (out_address out)"
  let ?w3 = "?w2 @ covenant out"
  from Cons.prems(1) have s1: "out_value out \<le> MAX_SAFE_INTEGER"
    and s2: "\<forall>out\<in>set rest. out_value out \<le> MAX_SAFE_INTEGER"
    by simp_all
  from Cons.prems(2) have b1: "length written + length (le 8 (out_value out)) \<le> size'"
    and b2: "length ?w1 + length (addr_raw (out_address out)) \<le> size'"
    and b3: "length ?w2 + length (covenant out) \<le> size'"
    and b4: "length ?w3 + length (concat (map output_bytes rest)) \<le> size'"
    by simp_all
  have "write_outputs (out # rest) (size', written) = write_outputs rest (size', ?w3)"
    by (simp only: write_outputs.simps writeU64_safe [OF s1] writeBytes_fits [OF b1]
        writeBytes_fits [OF b2] writeBytes_fits [OF b3] andThen_Inr)
  also have "\<dots> = Inr (size', ?w3 @ concat (map output_bytes rest))"
    using s2 b4 by (rule Cons.IH)
  finally show ?case by (simp add: output_bytes_def [of out])
qed

lemma write_outputs_unsafe:
  "\<exists>out\<in>set outs. MAX_SAFE_INTEGER < out_value out \<Longrightarrow>
   length written + length (concat (map output_bytes outs)) \<le> size' \<Longrightarrow>
   write_outputs outs (size', written) = Inl (TypeError ''num must be a safe integer'')"
proof (induction outs arbitrary: written)
  case Nil
  then show ?case by simp
next
  case (Cons out rest)
  show ?case
  proof (cases "MAX_SAFE_INTEGER < out_value out")
    case True
    then show ?thesis
      by (simp only: write_outputs.simps writeU64_unsafe [OF True] andThen_Inl)
  next
    case False
    let ?w1 = "written @ le 8 (out_value out)"
    let ?w2 = "?w1 @ addr_raw (out_address out)"
    let ?w3 = "?w2 @ covenant out"
    from False have s1: "out_value out \<le> MAX_SAFE_INTEGER" by simp
    from False Cons.prems(1) have s2: "\<exists>out\<in>set rest. MAX_SAFE_INTEGER < out_value out"
      by auto
    from Cons.prems(2) have b1: "length written + length (le 8 (out_value out)) \<le> size'"
      and b2: "length ?w1 + length (addr_raw (out_address out)) \<le> size'"
      and b3: "length ?w2 + length (covenant out) \<le> size'"
      and b4: "length ?w3 + length (concat (map output_bytes rest)) \<le> size'"
      by simp_all
    have "write_outputs (out # rest) (size', written) = write_outputs rest (size', ?w3)"
      by (simp only: write_outputs.simps writeU64_safe [OF s1] writeBytes_fits [OF b1]
          writeBytes_fits [OF b2] writeBytes_fits [OF b3] andThen_Inr)
    also have "\<dots> = Inl (TypeError ''num must be a safe integer'')"
      using s2 b4 by (rule Cons.IH)
    finally show ?thesis .
  qed
qed

lemma fold_input_sizes:
  "fold (\<lambda>input size'. size' + 4 + length (prevout input)) ins a
     = a + length (concat (map input_bytes ins))"
  by (induction ins arbitrary: a) simp_all

lemma fold_output_sizes:
  "fold (\<lambda>output outs.
           outs + 8 + length (addr_raw (out_address output)) + length (covenant output)) os a
     = a + length (concat (map output_bytes os))"
  by (induction os arbitrary: a) simp_all

lemma parseTX_outs_eq: "parseTX_outs mtx = length (concat (map output_bytes (outputs mtx)))"
  by (simp add: parseTX_outs_def fold_output_sizes)

lemma parseTX_size_eq:
  "parseTX_size mtx =
     8 + sizeVarint (length (inputs mtx)) + sizeVarint (length (outputs mtx))
       + sizeVarint (parseTX_outs mtx)
       + length (concat (map input_bytes (inputs mtx)))
       + length (concat (map output_bytes (outputs mtx)))"
  by (simp add: parseTX_size_def Let_def fold_input_sizes parseTX_outs_eq)

text \<open>
  The writes of \<^verbatim>\<open>parseTX\<close> up to the outputs: they fit for every transaction, and
  leave room for exactly the bytes of the outputs.
\<close>

lemma parseTX_head:
  "andThen (writeU32 (version mtx) (bufio_write (parseTX_size mtx))) (\<lambda>buf.
   andThen (writeU32 (locktime mtx) buf) (\<lambda>buf.
   andThen (writeVarint (length (inputs mtx)) buf) (\<lambda>buf.
   andThen (writeVarint (length (outputs mtx)) buf) (\<lambda>buf.
   andThen (writeVarint (parseTX_outs mtx) buf) (\<lambda>buf.
   andThen (write_inputs (inputs mtx) buf) k)))))
   = k (parseTX_size mtx,
        le 4 (unat (version mtx)) @ le 4 (unat (locktime mtx))
        @ varint (length (inputs mtx)) @ varint (length (outputs mtx))
        @ varint (parseTX_outs mtx)
        @ concat (map input_bytes (inputs mtx)))"
proof -
  let ?S = "parseTX_size mtx"
  let ?a = "le 4 (unat (version mtx))"
  let ?b = "?a @ le 4 (unat (locktime mtx))"
  let ?c = "?b @ varint (length (inputs mtx))"
  let ?d = "?c @ varint (length (outputs mtx))"
  let ?e = "?d @ varint (parseTX_outs mtx)"
  let ?f = "?e @ concat (map input_bytes (inputs mtx))"
  note S = parseTX_size_eq [of mtx]
  have 1: "writeU32 (version mtx) (bufio_write ?S) = Inr (?S, ?a)"
    unfolding writeU32_def bufio_write_def
    using writeBytes_fits [of "[]" ?a ?S] S by simp
  have 2: "writeU32 (locktime mtx) (?S, ?a) = Inr (?S, ?b)"
    unfolding writeU32_def
    using writeBytes_fits [of ?a "le 4 (unat (locktime mtx))" ?S] S by simp
  have 3: "writeVarint (length (inputs mtx)) (?S, ?b) = Inr (?S, ?c)"
    unfolding writeVarint_def
    using writeBytes_fits [of ?b "varint (length (inputs mtx))" ?S] S by simp
  have 4: "writeVarint (length (outputs mtx)) (?S, ?c) = Inr (?S, ?d)"
    unfolding writeVarint_def
    using writeBytes_fits [of ?c "varint (length (outputs mtx))" ?S] S by simp
  have 5: "writeVarint (parseTX_outs mtx) (?S, ?d) = Inr (?S, ?e)"
    unfolding writeVarint_def
    using writeBytes_fits [of ?d "varint (parseTX_outs mtx)" ?S] S by simp
  have 6: "write_inputs (inputs mtx) (?S, ?e) = Inr (?S, ?f)"
    using write_inputs_fits [of ?e "inputs mtx" ?S] S by simp
  have "andThen (writeU32 (version mtx) (bufio_write (parseTX_size mtx))) (\<lambda>buf.
   andThen (writeU32 (locktime mtx) buf) (\<lambda>buf.
   andThen (writeVarint (length (inputs mtx)) buf) (\<lambda>buf.
   andThen (writeVarint (length (outputs mtx)) buf) (\<lambda>buf.
   andThen (writeVarint (parseTX_outs mtx) buf) (\<lambda>buf.
   andThen (write_inputs (inputs mtx) buf) k))))) = k (?S, ?f)"
    by (simp only: 1 2 3 4 5 6 andThen_Inr)
  then show ?thesis by simp
qed

lemma parseTX_head_room:
  "length (le 4 (unat (version mtx)) @ le 4 (unat (locktime mtx))
           @ varint (length (inputs mtx)) @ varint (length (outputs mtx))
           @ varint (parseTX_outs mtx)
           @ concat (map input_bytes (inputs mtx)))
     + length (concat (map output_bytes (outputs mtx))) = parseTX_size mtx"
  by (simp add: parseTX_size_eq)

lemma parseTX_buffer_eq:
  assumes safe: "\<forall>out\<in>set (outputs mtx). out_value out \<le> MAX_SAFE_INTEGER"
  shows "parseTX_buffer mtx =
     Inr (le 4 (unat (version mtx)) @ le 4 (unat (locktime mtx))
          @ varint (length (inputs mtx)) @ varint (length (outputs mtx))
          @ varint (parseTX_outs mtx)
          @ concat (map input_bytes (inputs mtx))
          @ concat (map output_bytes (outputs mtx)))"
proof -
  let ?S = "parseTX_size mtx"
  let ?f = "le 4 (unat (version mtx)) @ le 4 (unat (locktime mtx))
        @ varint (length (inputs mtx)) @ varint (length (outputs mtx))
        @ varint (parseTX_outs mtx)
        @ concat (map input_bytes (inputs mtx))"
  let ?g = "?f @ concat (map output_bytes (outputs mtx))"
  have room: "length ?f + length (concat (map output_bytes (outputs mtx))) \<le> ?S"
    using parseTX_head_room [of mtx] by simp
  have 7: "write_outputs (outputs mtx) (?S, ?f) = Inr (?S, ?g)"
    using safe room by (rule write_outputs_fits)
  have 8: "render (?S, ?g) = Inr ?g"
    using parseTX_head_room [of mtx] by (simp add: render_def)
  have "parseTX_buffer mtx = Inr ?g"
    unfolding parseTX_buffer_def
    by (simp only: parseTX_head 7 8 andThen_Inr)
  then show ?thesis by simp
qed

lemma parseTX_buffer_unsafe:
  assumes unsafe: "\<exists>out\<in>set (outputs mtx). MAX_SAFE_INTEGER < out_value out"
  shows "parseTX_buffer mtx = Inl (TypeError ''num must be a safe integer'')"
proof -
  let ?S = "parseTX_size mtx"
  let ?f = "le 4 (unat (version mtx)) @ le 4 (unat (locktime mtx))
        @ varint (length (inputs mtx)) @ varint (length (outputs mtx))
        @ varint (parseTX_outs mtx)
        @ concat (map input_bytes (inputs mtx))"
  have room: "length ?f + length (concat (map output_bytes (outputs mtx))) \<le> ?S"
    using parseTX_head_room [of mtx] by simp
  have 7: "write_outputs (outputs mtx) (?S, ?f) = Inl (TypeError ''num must be a safe integer'')"
    using unsafe room by (rule write_outputs_unsafe)
  show ?thesis
    unfolding parseTX_buffer_def
    by (simp only: parseTX_head 7 andThen_Inl)
qed

lemma parseTX_buffer_length:
  assumes "parseTX_buffer mtx = Inr buf"
  shows "length buf = parseTX_size mtx"
proof (cases "\<forall>out\<in>set (outputs mtx). out_value out \<le> MAX_SAFE_INTEGER")
  case True
  from parseTX_buffer_eq [OF True] assms show ?thesis
    by (auto simp: parseTX_size_eq)
next
  case False
  then have "\<exists>out\<in>set (outputs mtx). MAX_SAFE_INTEGER < out_value out"
    by (auto simp: not_le)
  from parseTX_buffer_unsafe [OF this] assms show ?thesis by simp
qed

lemma parseTX_size_min: "11 \<le> parseTX_size mtx"
  by (simp add: parseTX_size_eq sizeVarint_def)

text \<open>
  Claim C6. The claim is stated for every mutable transaction. \<^verbatim>\<open>parseTX\<close> writes an
  output's value with bufio's \<^verbatim>\<open>writeU64\<close> (client.js line 144), which throws for a
  number above \<open>2^53 - 1\<close>: a transaction with such an output value gets no buffer, as
  the last theorem of this subsection shows. For every transaction whose output values are at
  most \<open>2^53 - 1\<close> the writer never overflows and \<^verbatim>\<open>render\<close> succeeds: the buffer is the
  32-bit version, the 32-bit locktime, the varint input count, the varint output count, the
  varint total size of the serialized outputs, then for each input its previous outpoint
  and 32-bit sequence number, then for each output its 64-bit value, its address and its
  covenant. The varint before the inputs is the length of the outputs part, and the length
  of the buffer is the size computed beforehand.
\<close>

theorem parseTX_buffer_layout:
  assumes "\<forall>output\<in>set (outputs mtx). out_value output \<le> MAX_SAFE_INTEGER"
  shows "parseTX_buffer mtx =
     Inr (le 4 (unat (version mtx)) @ le 4 (unat (locktime mtx))
          @ varint (length (inputs mtx)) @ varint (length (outputs mtx))
          @ varint (parseTX_outs mtx)
          @ concat (map (\<lambda>input. prevout input @ le 4 (unat (sequence input))) (inputs mtx))
          @ concat (map (\<lambda>output. le 8 (out_value output)
                                   @ addr_raw (out_address output) @ covenant output)
                        (outputs mtx)))
   \<and> parseTX_outs mtx =
       length (concat (map (\<lambda>output. le 8 (out_value output)
                                   @ addr_raw (out_address output) @ covenant output)
                        (outputs mtx)))
   \<and> map_sum id length (parseTX_buffer mtx) = Inr (parseTX_size mtx)"
proof -
  have i: "input_bytes = (\<lambda>input. prevout input @ le 4 (unat (sequence input)))"
    by (rule ext) (simp add: input_bytes_def)
  have o: "output_bytes = (\<lambda>output. le 8 (out_value output)
                                   @ addr_raw (out_address output) @ covenant output)"
    by (rule ext) (simp add: output_bytes_def)
  have 1: "map_sum id length (parseTX_buffer mtx) = Inr (parseTX_size mtx)"
    by (simp add: parseTX_buffer_eq [OF assms] parseTX_size_eq)
  from parseTX_buffer_eq [OF assms] parseTX_outs_eq [of mtx] 1 show ?thesis
    unfolding i o by simp
qed

text \<open>
  An instance: a transaction with one input and one output of value 1000. Its preamble is
  28 bytes, and the varint before the input is 11, the size of the one output.
\<close>

theorem parseTX_buffer_layout_witness:
  "out_value output_one \<le> MAX_SAFE_INTEGER
   \<and> parseTX_buffer mtx_one =
       Inr ([1, 0, 0, 0] @ [0, 0, 0, 0] @ [1] @ [1] @ [11]
            @ [0xaa, 0xbb, 0xff, 0xff, 0xff, 0xff]
            @ [0xe8, 0x03, 0, 0, 0, 0, 0, 0, 0x00, 0x14, 0x00])
   \<and> parseTX_outs mtx_one = 11
   \<and> parseTX_size mtx_one = 28"
proof -
  have safe: "\<forall>output\<in>set (outputs mtx_one). out_value output \<le> MAX_SAFE_INTEGER"
    by (simp add: mtx_one_def output_one_def MAX_SAFE_INTEGER_def)
  have outs: "parseTX_outs mtx_one = 11"
    by (simp add: parseTX_outs_def mtx_one_def output_one_def)
  have sz: "parseTX_size mtx_one = 28"
    by (simp add: parseTX_size_def outs sizeVarint_def Let_def)
      (simp add: mtx_one_def output_one_def)
  have v: "le 8 (1000 :: nat) = [0xe8, 0x03, 0, 0, 0, 0, 0, 0]"
    by (simp add: le_def upt_rec)
  from parseTX_buffer_layout [OF safe]
  have "parseTX_buffer mtx_one =
     Inr (le 4 (unat (version mtx_one)) @ le 4 (unat (locktime mtx_one))
          @ varint (length (inputs mtx_one)) @ varint (length (outputs mtx_one))
          @ varint (parseTX_outs mtx_one)
          @ concat (map (\<lambda>input. prevout input @ le 4 (unat (sequence input)))
                        (inputs mtx_one))
          @ concat (map (\<lambda>output. le 8 (out_value output)
                                   @ addr_raw (out_address output) @ covenant output)
                        (outputs mtx_one)))"
    by (rule conjunct1)
  then have "parseTX_buffer mtx_one =
       Inr ([1, 0, 0, 0] @ [0, 0, 0, 0] @ [1] @ [1] @ [11]
            @ [0xaa, 0xbb, 0xff, 0xff, 0xff, 0xff]
            @ [0xe8, 0x03, 0, 0, 0, 0, 0, 0, 0x00, 0x14, 0x00])"
    unfolding outs
    by (simp add: mtx_one_def output_one_def v varint_def) (simp add: le_def upt_rec)
  moreover have "out_value output_one \<le> MAX_SAFE_INTEGER"
    by (simp add: output_one_def MAX_SAFE_INTEGER_def)
  ultimately show ?thesis using outs sz by simp
qed

text \<open>
  The claim as written fails on a transaction that differs from the one above only in its
  output value, \<open>2^53\<close>: \<^verbatim>\<open>writeU64\<close> throws a \<^verbatim>\<open>TypeError\<close>, no buffer is rendered, and
  \<^verbatim>\<open>parseTX\<close> ends with that exception before it has sent anything to the device.
\<close>

theorem parseTX_buffer_unsafe_value:
  "outputs mtx_unsafe = [output_one\<lparr>out_value := 2 ^ 53\<rparr>]
   \<and> (case parseTX_buffer mtx_unsafe of Inl (TypeError m) \<Rightarrow> True | _ \<Rightarrow> False)
   \<and> (\<forall>buf. parseTX_buffer mtx_unsafe \<noteq> Inr buf)
   \<and> isl (fst (parseTX apdu_sample device_rejecting mtx_unsafe))
   \<and> snd (parseTX apdu_sample device_rejecting mtx_unsafe) = device_rejecting"
proof -
  have "\<exists>out\<in>set (outputs mtx_unsafe). MAX_SAFE_INTEGER < out_value out"
    by (simp add: mtx_unsafe_def mtx_one_def MAX_SAFE_INTEGER_def)
  from parseTX_buffer_unsafe [OF this] show ?thesis
    by (simp add: parseTX_def mtx_unsafe_def mtx_one_def)
qed

subsection \<open>Chunks\<close>

lemma splitBuffer_Nil [simp]: "splitBuffer [] size' = []"
  by (simp add: splitBuffer.simps)

lemma splitBuffer_step:
  "0 < size' \<Longrightarrow> data \<noteq> [] \<Longrightarrow>
   splitBuffer data size' = take size' data # splitBuffer (drop size' data) size'"
  by (subst splitBuffer.simps) simp

lemma concat_splitBuffer: "0 < size' \<Longrightarrow> concat (splitBuffer data size') = data"
proof (induction data size' rule: splitBuffer.induct)
  case (1 data size')
  show ?case
  proof (cases "data = []")
    case True
    then show ?thesis by simp
  next
    case False
    with 1 show ?thesis by (simp add: splitBuffer_step)
  qed
qed

lemma length_splitBuffer:
  "0 < size' \<Longrightarrow> length (splitBuffer data size') = (length data + size' - 1) div size'"
proof (induction data size' rule: splitBuffer.induct)
  case (1 data size')
  show ?case
  proof (cases "data = []")
    case True
    with 1 show ?thesis by simp
  next
    case False
    with 1 have ih: "length (splitBuffer (drop size' data) size')
        = (length (drop size' data) + size' - 1) div size'"
      by simp
    from False have pos: "0 < length data" by simp
    show ?thesis
    proof (cases "size' \<le> length data")
      case True
      from pos have "length data + size' - 1 = (length data - 1) + size'" by linarith
      moreover have "((length data - 1) + size') div size' = Suc ((length data - 1) div size')"
        using 1(2) div_add_self2 [of size' "length data - 1"] by simp
      ultimately have e: "(length data + size' - 1) div size' = Suc ((length data - 1) div size')"
        by (simp only:)
      from True have "length (drop size' data) + size' - 1 = length data - 1" by simp
      with ih have "length (splitBuffer (drop size' data) size') = (length data - 1) div size'"
        by (simp only:)
      with e have "length (take size' data # splitBuffer (drop size' data) size')
          = (length data + size' - 1) div size'"
        by simp
      then show ?thesis by (simp only: splitBuffer_step [OF 1(2) False])
    next
      case less: False
      then have d: "drop size' data = []" by simp
      have "size' * 1 \<le> length data + size' - 1" using pos by linarith
      moreover have "length data + size' - 1 < size' * Suc 1" using less pos by simp
      ultimately have "(length data + size' - 1) div size' = 1" by (rule div_nat_eqI)
      then have "length (take size' data # splitBuffer (drop size' data) size')
          = (length data + size' - 1) div size'"
        using d by simp
      then show ?thesis by (simp only: splitBuffer_step [OF 1(2) False])
    qed
  qed
qed

lemma splitBuffer_chunks:
  "0 < size' \<Longrightarrow> c \<in> set (splitBuffer data size') \<Longrightarrow> c \<noteq> [] \<and> length c \<le> size'"
proof (induction data size' rule: splitBuffer.induct)
  case (1 data size')
  show ?case
  proof (cases "data = []")
    case True
    with 1 show ?thesis by simp
  next
    case False
    with 1 show ?thesis by (auto simp: splitBuffer_step)
  qed
qed


subsection \<open>Streaming the transaction\<close>

lemma reply_shift: "reply (dev\<lparr>log := log dev @ [p]\<rparr>) ps i = reply dev (p # ps) (Suc i)"
  by (simp add: reply_def)

lemma acked_shift: "acked A (dev\<lparr>log := log dev @ [p]\<rparr>) ps i = acked A dev (p # ps) (Suc i)"
  by (simp add: acked_def reply_shift)

lemma refused_shift:
  "refused A (dev\<lparr>log := log dev @ [p]\<rparr>) ps i e = refused A dev (p # ps) (Suc i) e"
  by (simp add: refused_def reply_shift)

lemma acked_not_refused: "acked A dev ps i \<Longrightarrow> \<not> refused A dev ps i e"
  by (auto simp: acked_def refused_def split: sum.splits)

lemma refused_same: "refused A dev ps i e \<Longrightarrow> refused A dev ps i e' \<Longrightarrow> e' = e"
  by (auto simp: refused_def split: sum.splits)

lemma sendTX_built:
  assumes "cmd_parseTX A msg first = Inr p"
  shows "sendTX A dev msg first =
           ((case reply dev (p # ps) 0 of Inl e \<Rightarrow> Inl e | Inr res \<Rightarrow> res_parseTX A res),
            dev\<lparr>log := log dev @ [p]\<rparr>)"
  using assms by (simp add: sendTX_def exchange_def reply_def split: sum.splits)

lemma sendTX_Inr:
  assumes "cmd_parseTX A msg first = Inr p" and "sendTX A dev msg first = (Inr u, dev1)"
  shows "dev1 = dev\<lparr>log := log dev @ [p]\<rparr> \<and> acked A dev (p # ps) 0"
  using assms sendTX_built [OF assms(1), of dev ps]
  by (auto simp: acked_def split: sum.splits)

lemma sendTX_Inl:
  assumes "cmd_parseTX A msg first = Inr p" and "sendTX A dev msg first = (Inl e, dev1)"
  shows "dev1 = dev\<lparr>log := log dev @ [p]\<rparr> \<and> refused A dev (p # ps) 0 e"
  using assms sendTX_built [OF assms(1), of dev ps]
  by (auto simp: refused_def split: sum.splits)

lemma parseTX_loop_trace:
  assumes "length ps = length msgs"
    and "\<forall>i<length msgs. cmd_parseTX A (msgs ! i) False = Inr (ps ! i)"
    and "parseTX_loop A msgs dev = (result, dev')"
  shows "\<exists>m\<le>length msgs. dev' = dev\<lparr>log := log dev @ take m ps\<rparr>
          \<and> (case result of
               Inr u \<Rightarrow> m = length msgs \<and> (\<forall>i<m. acked A dev ps i)
             | Inl e \<Rightarrow> 0 < m \<and> (\<forall>i<m - 1. acked A dev ps i) \<and> refused A dev ps (m - 1) e)"
  using assms
proof (induction msgs arbitrary: ps dev)
  case Nil
  then show ?case by auto
next
  case (Cons msg msgs)
  from Cons.prems(1) obtain p ps' where ps: "ps = p # ps'" and len: "length ps' = length msgs"
    by (cases ps) auto
  from Cons.prems(2) ps have c0: "cmd_parseTX A msg False = Inr p"
    by auto
  from Cons.prems(2) ps have cs: "\<forall>i<length msgs. cmd_parseTX A (msgs ! i) False = Inr (ps' ! i)"
    by auto
  let ?dev1 = "dev\<lparr>log := log dev @ [p]\<rparr>"
  obtain r0 d0 where s: "sendTX A dev msg False = (r0, d0)"
    by (cases "sendTX A dev msg False")
  show ?case
  proof (cases r0)
    case (Inl e)
    with s sendTX_Inl [OF c0, of dev e d0 ps'] have d0: "d0 = ?dev1"
      and rf: "refused A dev ps 0 e"
      by (simp_all add: ps)
    from Cons.prems(3) s Inl have res: "result = Inl e" and dev': "dev' = d0"
      by simp_all
    have "dev' = dev\<lparr>log := log dev @ take 1 ps\<rparr>"
      using dev' d0 ps by simp
    with res rf show ?thesis
      by (intro exI [of _ 1]) simp
  next
    case (Inr u)
    with s sendTX_Inr [OF c0, of dev u d0 ps'] have d0: "d0 = ?dev1"
      and ak: "acked A dev ps 0"
      by (simp_all add: ps)
    from Cons.prems(3) s Inr d0 have run: "parseTX_loop A msgs ?dev1 = (result, dev')"
      by simp
    from Cons.IH [OF len cs run] obtain m where m: "m \<le> length msgs"
      and dev': "dev' = ?dev1\<lparr>log := log ?dev1 @ take m ps'\<rparr>"
      and r: "case result of
               Inr u \<Rightarrow> m = length msgs \<and> (\<forall>i<m. acked A ?dev1 ps' i)
             | Inl e \<Rightarrow> 0 < m \<and> (\<forall>i<m - 1. acked A ?dev1 ps' i)
                        \<and> refused A ?dev1 ps' (m - 1) e"
      by blast
    have l: "dev' = dev\<lparr>log := log dev @ take (Suc m) ps\<rparr>"
      using dev' ps by simp
    have shift: "acked A dev ps i" if "i < Suc k" and "\<forall>j<k. acked A ?dev1 ps' j" for i k
    proof (cases i)
      case 0
      with ak show ?thesis by simp
    next
      case (Suc j)
      with that have "acked A ?dev1 ps' j" by simp
      then show ?thesis by (simp add: acked_shift ps Suc)
    qed
    show ?thesis
    proof (cases result)
      case ok: (Inr v)
      with r have mm: "m = length msgs" and all: "\<forall>j<m. acked A ?dev1 ps' j"
        by simp_all
      from all have "\<forall>i<Suc m. acked A dev ps i"
        using shift by blast
      with ok l mm show ?thesis
        by (intro exI [of _ "Suc m"]) simp
    next
      case bad: (Inl e)
      with r have pos: "0 < m" and all: "\<forall>j<m - 1. acked A ?dev1 ps' j"
        and rf: "refused A ?dev1 ps' (m - 1) e"
        by simp_all
      from pos have sm: "Suc (m - 1) = m" by simp
      from all have a: "\<forall>i<m. acked A dev ps i"
        using shift [of _ "m - 1"] sm by auto
      from rf have "refused A dev ps (Suc (m - 1)) e"
        by (simp add: refused_shift ps)
      with sm have "refused A dev ps m e" by simp
      with bad l m a show ?thesis
        by (intro exI [of _ "Suc m"]) simp
    qed
  qed
qed


lemma two_chunks:
  assumes "0 < size'" and "size' < length data"
  shows "2 \<le> length (splitBuffer data size')"
proof -
  from assms have "size' * 2 \<le> length data + size' - 1" by linarith
  then have "2 \<le> (length data + size' - 1) div size'"
    using assms(1) by (simp add: less_eq_div_iff_mult_less_eq mult.commute)
  then show ?thesis by (simp add: length_splitBuffer [OF assms(1)])
qed

lemma parseTX_chunks_nonempty:
  assumes "0 < MAX_TX_PACKET A" and "parseTX_buffer mtx = Inr buf"
  shows "splitBuffer buf (MAX_TX_PACKET A) \<noteq> []"
proof -
  from parseTX_buffer_length [OF assms(2)] parseTX_size_min [of mtx] have "11 \<le> length buf"
    by simp
  then have "buf \<noteq> []" by auto
  with assms(1) show ?thesis by (simp add: splitBuffer_step)
qed

lemma parseTX_trace:
  assumes max: "0 < MAX_TX_PACKET A"
    and buf: "parseTX_buffer mtx = Inr buf"
    and big: "MAX_TX_PACKET A < length buf"
    and chunks: "chunks = splitBuffer buf (MAX_TX_PACKET A)"
    and len: "length pkts = length chunks"
    and cmds: "\<forall>i<length chunks. cmd_parseTX A (chunks ! i) (i = 0) = Inr (pkts ! i)"
    and run: "parseTX A dev mtx = (result, dev')"
  shows "\<exists>m. 0 < m \<and> m \<le> length chunks \<and> dev' = dev\<lparr>log := log dev @ take m pkts\<rparr>
          \<and> (\<forall>i<m - 1. acked A dev pkts i)
          \<and> (case result of
               Inr u \<Rightarrow> m = length chunks \<and> acked A dev pkts (m - 1)
             | Inl e \<Rightarrow> refused A dev pkts (m - 1) e)"
proof -
  from two_chunks [OF max big] chunks have n2: "2 \<le> length chunks" by simp
  then obtain c0 cs where cc: "chunks = c0 # cs" by (cases chunks) auto
  with len obtain p ps where pp: "pkts = p # ps" and lps: "length ps = length cs"
    by (cases pkts) auto
  from cmds cc pp have c0: "cmd_parseTX A c0 True = Inr p" by auto
  have cs: "\<forall>i<length cs. cmd_parseTX A (cs ! i) False = Inr (ps ! i)"
  proof (intro allI impI)
    fix i assume "i < length cs"
    then have "Suc i < length chunks" by (simp add: cc)
    with cmds have "cmd_parseTX A (chunks ! Suc i) (Suc i = 0) = Inr (pkts ! Suc i)" by blast
    then show "cmd_parseTX A (cs ! i) False = Inr (ps ! i)" by (simp add: cc pp)
  qed
  let ?dev1 = "dev\<lparr>log := log dev @ [p]\<rparr>"
  obtain r0 d0 where s: "sendTX A dev c0 True = (r0, d0)"
    by (cases "sendTX A dev c0 True")
  from run buf chunks [symmetric] cc s
  have run': "(case r0 of Inl e \<Rightarrow> (Inl e, d0) | Inr u \<Rightarrow> parseTX_loop A cs d0) = (result, dev')"
    by (simp add: parseTX_def split: sum.splits)
  show ?thesis
  proof (cases r0)
    case (Inl e)
    with s sendTX_Inl [OF c0, of dev e d0 ps] have d0: "d0 = ?dev1"
      and rf: "refused A dev pkts 0 e"
      by (simp_all add: pp)
    from run' Inl have res: "result = Inl e" and dev': "dev' = d0" by simp_all
    have "dev' = dev\<lparr>log := log dev @ take 1 pkts\<rparr>"
      using dev' d0 pp by simp
    with res rf n2 show ?thesis
      by (intro exI [of _ 1]) simp
  next
    case (Inr u)
    with s sendTX_Inr [OF c0, of dev u d0 ps] have d0: "d0 = ?dev1"
      and ak: "acked A dev pkts 0"
      by (simp_all add: pp)
    from run' Inr d0 have loop: "parseTX_loop A cs ?dev1 = (result, dev')" by simp
    from parseTX_loop_trace [OF lps cs loop] obtain m where m: "m \<le> length cs"
      and dev': "dev' = ?dev1\<lparr>log := log ?dev1 @ take m ps\<rparr>"
      and r: "case result of
               Inr u \<Rightarrow> m = length cs \<and> (\<forall>i<m. acked A ?dev1 ps i)
             | Inl e \<Rightarrow> 0 < m \<and> (\<forall>i<m - 1. acked A ?dev1 ps i)
                        \<and> refused A ?dev1 ps (m - 1) e"
      by blast
    have l: "dev' = dev\<lparr>log := log dev @ take (Suc m) pkts\<rparr>"
      using dev' pp by simp
    have shift: "acked A dev pkts i" if "i < Suc k" and "\<forall>j<k. acked A ?dev1 ps j" for i k
    proof (cases i)
      case 0
      with ak show ?thesis by simp
    next
      case (Suc j)
      with that have "acked A ?dev1 ps j" by simp
      then show ?thesis by (simp add: acked_shift pp Suc)
    qed
    show ?thesis
    proof (cases result)
      case ok: (Inr v)
      with r have mm: "m = length cs" and all: "\<forall>j<m. acked A ?dev1 ps j"
        by simp_all
      from all have "\<forall>i<Suc m. acked A dev pkts i"
        using shift by blast
      with ok l mm cc show ?thesis
        by (intro exI [of _ "Suc m"]) simp
    next
      case bad: (Inl e)
      with r have pos: "0 < m" and all: "\<forall>j<m - 1. acked A ?dev1 ps j"
        and rf: "refused A ?dev1 ps (m - 1) e"
        by simp_all
      from pos have sm: "Suc (m - 1) = m" by simp
      from all have a: "\<forall>i<m. acked A dev pkts i"
        using shift [of _ "m - 1"] sm by auto
      from rf have "refused A dev pkts (Suc (m - 1)) e"
        by (simp add: refused_shift pp)
      with sm have "refused A dev pkts m e" by simp
      with bad l m a cc show ?thesis
        by (intro exI [of _ "Suc m"]) simp
    qed
  qed
qed

text \<open>
  Claim C5. Let the preamble be longer than the maximum transaction packet, so that it
  splits into at least two chunks, and let the builder accept every chunk, the first one
  flagged as first and every later one as not first. Then \<^verbatim>\<open>parseTX\<close> sends a prefix
  of those commands in their order and nothing else; every command but the last one sent
  was acknowledged before the next was sent; the call returns normally only after the last
  chunk was sent and acknowledged, and otherwise throws exactly what the exchange or the
  response parser threw for the last command sent. So when the first reply that is not a
  success acknowledgement is the one to chunk \<open>j\<close>, the call throws that error after
  \<open>j + 1\<close> exchanges and sends no further chunk.
\<close>

theorem parseTX_stream:
  assumes "0 < MAX_TX_PACKET A"
    and "parseTX_buffer mtx = Inr buf"
    and "MAX_TX_PACKET A < length buf"
    and "chunks = splitBuffer buf (MAX_TX_PACKET A)"
    and "length pkts = length chunks"
    and "\<forall>i<length chunks. cmd_parseTX A (chunks ! i) (i = 0) = Inr (pkts ! i)"
    and "parseTX A dev mtx = (result, dev')"
  shows "2 \<le> length chunks \<and> concat chunks = buf
       \<and> (\<exists>m. 0 < m \<and> m \<le> length chunks \<and> dev' = dev\<lparr>log := log dev @ take m pkts\<rparr>
              \<and> (\<forall>i<m - 1. acked A dev pkts i)
              \<and> (case result of
                   Inr u \<Rightarrow> m = length chunks \<and> acked A dev pkts (m - 1)
                 | Inl e \<Rightarrow> refused A dev pkts (m - 1) e))
       \<and> (\<forall>j e. j < length chunks \<and> (\<forall>i<j. acked A dev pkts i) \<and> refused A dev pkts j e
              \<longrightarrow> result = Inl e \<and> dev' = dev\<lparr>log := log dev @ take (Suc j) pkts\<rparr>)"
proof -
  have n2: "2 \<le> length chunks"
    using two_chunks [OF assms(1) assms(3)] assms(4) by simp
  have cat: "concat chunks = buf"
    using concat_splitBuffer [OF assms(1)] assms(4) by simp
  from parseTX_trace [OF assms] obtain m where pos: "0 < m" and le: "m \<le> length chunks"
    and dev': "dev' = dev\<lparr>log := log dev @ take m pkts\<rparr>"
    and before: "\<forall>i<m - 1. acked A dev pkts i"
    and r: "case result of
              Inr u \<Rightarrow> m = length chunks \<and> acked A dev pkts (m - 1)
            | Inl e \<Rightarrow> refused A dev pkts (m - 1) e"
    by blast
  have abort: "result = Inl e \<and> dev' = dev\<lparr>log := log dev @ take (Suc j) pkts\<rparr>"
    if j: "j < length chunks" and ok: "\<forall>i<j. acked A dev pkts i"
      and rf: "refused A dev pkts j e" for j e
  proof -
    have nj: "\<not> acked A dev pkts j"
      using rf acked_not_refused by blast
    have "\<not> j < m - 1" using before nj by blast
    moreover have "\<not> m - 1 < j"
    proof
      assume lt: "m - 1 < j"
      with ok have a: "acked A dev pkts (m - 1)" by blast
      show False
      proof (cases result)
        case (Inl e')
        with r have "refused A dev pkts (m - 1) e'" by simp
        with acked_not_refused [OF a] show False by blast
      next
        case (Inr u)
        with r have "m = length chunks" by simp
        with lt j show False by simp
      qed
    qed
    ultimately have mj: "m - 1 = j" by simp
    with pos have m: "m = Suc j" by simp
    obtain e' where res: "result = Inl e'"
    proof (cases result)
      case (Inl e')
      with that show ?thesis by blast
    next
      case (Inr u)
      with r have "acked A dev pkts (m - 1)" by auto
      with mj nj show ?thesis by simp
    qed
    with r mj have "refused A dev pkts j e'" by simp
    with rf have "e' = e" using refused_same by blast
    with res dev' m show ?thesis by simp
  qed
  from pos le dev' before r have ex: "\<exists>m. 0 < m \<and> m \<le> length chunks
              \<and> dev' = dev\<lparr>log := log dev @ take m pkts\<rparr>
              \<and> (\<forall>i<m - 1. acked A dev pkts i)
              \<and> (case result of
                   Inr u \<Rightarrow> m = length chunks \<and> acked A dev pkts (m - 1)
                 | Inl e \<Rightarrow> refused A dev pkts (m - 1) e)"
    by blast
  from n2 cat ex abort show ?thesis by blast
qed

lemma mtx_sample_buffer: "parseTX_buffer mtx_sample = Inr [0, 0, 0, 0, 0, 0, 0, 0, 0, 0, 0]"
proof -
  have "\<forall>out\<in>set (outputs mtx_sample). out_value out \<le> MAX_SAFE_INTEGER"
    by (simp add: mtx_sample_def)
  from parseTX_buffer_eq [OF this] show ?thesis
    by (simp add: mtx_sample_def parseTX_outs_def le_def varint_def upt_rec)
qed

lemma sample_chunks:
  "splitBuffer [0, 0, 0, 0, 0, 0, 0, 0, 0, 0, 0] 4 = [[0, 0, 0, 0], [0, 0, 0, 0], [0, 0, 0]]"
  by (simp add: splitBuffer_step)

lemma statusError_rejected:
  "statusError [0x69, 0x85]
     = StatusError 0x6985 ''CONDITIONS_OF_USE_NOT_SATISFIED''
         ''User rejected on-screen confirmation''"
  by (simp add: statusError_def statusWord_def kindAndMessage_def statusByVal_rejected errorByStatus_def)

text \<open>
  An instance: the eleven-byte preamble of the sample transaction makes three chunks of at
  most four bytes; the device rejects the second, and the call throws the user-rejection
  error after two exchanges, the third chunk unsent.
\<close>

theorem parseTX_stream_witness:
  "parseTX apdu_sample device_rejecting mtx_sample
     = (Inl (StatusError 0x6985 ''CONDITIONS_OF_USE_NOT_SATISFIED''
               ''User rejected on-screen confirmation''),
        device_rejecting\<lparr>log := [[1, 0, 0, 0, 0], [0, 0, 0, 0, 0]]\<rparr>)
   \<and> length (splitBuffer [0, 0, 0, 0, 0, 0, 0, 0, 0, 0, 0] (MAX_TX_PACKET apdu_sample)) = 3"
proof -
  let ?buf = "[0, 0, 0, 0, 0, 0, 0, 0, 0, 0, 0] :: bytes"
  let ?chunks = "[[0, 0, 0, 0], [0, 0, 0, 0], [0, 0, 0]] :: bytes list"
  let ?pkts = "[[1, 0, 0, 0, 0], [0, 0, 0, 0, 0], [0, 0, 0, 0]] :: bytes list"
  let ?e = "StatusError 0x6985 ''CONDITIONS_OF_USE_NOT_SATISFIED''
               ''User rejected on-screen confirmation''"
  have max: "0 < MAX_TX_PACKET apdu_sample" by (simp add: apdu_sample_def)
  have big: "MAX_TX_PACKET apdu_sample < length ?buf" by (simp add: apdu_sample_def)
  have ch: "?chunks = splitBuffer ?buf (MAX_TX_PACKET apdu_sample)"
    by (simp add: apdu_sample_def sample_chunks)
  have len: "length ?pkts = length ?chunks" by simp
  have cmds: "\<forall>i<length ?chunks.
      cmd_parseTX apdu_sample (?chunks ! i) (i = 0) = Inr (?pkts ! i)"
  proof (intro allI impI)
    fix i :: nat
    assume "i < length ?chunks"
    then have "i = 0 \<or> i = 1 \<or> i = 2" by auto
    then show "cmd_parseTX apdu_sample (?chunks ! i) (i = 0) = Inr (?pkts ! i)"
      by (auto simp: apdu_sample_def)
  qed
  have run: "parseTX apdu_sample device_rejecting mtx_sample
      = (fst (parseTX apdu_sample device_rejecting mtx_sample),
         snd (parseTX apdu_sample device_rejecting mtx_sample))"
    by simp
  have a0: "\<forall>i<1. acked apdu_sample device_rejecting ?pkts i"
    by (simp add: acked_def reply_def device_rejecting_def apdu_sample_def)
  have r1: "refused apdu_sample device_rejecting ?pkts 1 ?e"
    by (simp add: refused_def reply_def device_rejecting_def apdu_sample_def
        statusError_rejected)
  from parseTX_stream [OF max mtx_sample_buffer big ch len cmds run]
  have "\<forall>j e. j < length ?chunks \<and> (\<forall>i<j. acked apdu_sample device_rejecting ?pkts i)
            \<and> refused apdu_sample device_rejecting ?pkts j e
         \<longrightarrow> fst (parseTX apdu_sample device_rejecting mtx_sample) = Inl e
             \<and> snd (parseTX apdu_sample device_rejecting mtx_sample)
                 = device_rejecting\<lparr>log := log device_rejecting @ take (Suc j) ?pkts\<rparr>"
    by blast
  then have "1 < length ?chunks \<and> (\<forall>i<1. acked apdu_sample device_rejecting ?pkts i)
            \<and> refused apdu_sample device_rejecting ?pkts 1 ?e
         \<longrightarrow> fst (parseTX apdu_sample device_rejecting mtx_sample) = Inl ?e
             \<and> snd (parseTX apdu_sample device_rejecting mtx_sample)
                 = device_rejecting\<lparr>log := log device_rejecting @ take (Suc 1) ?pkts\<rparr>"
    by blast
  with a0 r1 have "fst (parseTX apdu_sample device_rejecting mtx_sample) = Inl ?e
             \<and> snd (parseTX apdu_sample device_rejecting mtx_sample)
                 = device_rejecting\<lparr>log := log device_rejecting @ take (Suc 1) ?pkts\<rparr>"
    by simp
  then have "parseTX apdu_sample device_rejecting mtx_sample
     = (Inl ?e, device_rejecting\<lparr>log := [[1, 0, 0, 0, 0], [0, 0, 0, 0, 0]]\<rparr>)"
    by (cases "parseTX apdu_sample device_rejecting mtx_sample")
       (simp add: device_rejecting_def)
  then show ?thesis
    by (simp add: apdu_sample_def sample_chunks)
qed

subsection \<open>Retrieving a signature\<close>

lemma sizeVarint_pos: "0 < sizeVarint num"
  by (simp add: sizeVarint_def)

lemma encoded_script_eq: "encoded_script s = Inr (varint (length (raw s)) @ raw s)"
proof -
  let ?S = "Script_getVarSize s"
  have 1: "writeVarint (length (raw s)) (bufio_write ?S) = Inr (?S, varint (length (raw s)))"
    unfolding writeVarint_def bufio_write_def
    using writeBytes_fits [of "[]" "varint (length (raw s))" ?S]
    by (simp add: Script_getVarSize_def)
  have 2: "writeBytes (raw s) (?S, varint (length (raw s)))
      = Inr (?S, varint (length (raw s)) @ raw s)"
    using writeBytes_fits [of "varint (length (raw s))" "raw s" ?S]
    by (simp add: Script_getVarSize_def)
  have 3: "render (?S, varint (length (raw s)) @ raw s) = Inr (varint (length (raw s)) @ raw s)"
    by (simp add: render_def Script_getVarSize_def)
  show ?thesis
    unfolding encoded_script_def Script_write_def
    by (simp only: 1 2 3 andThen_Inr)
qed

lemma one_chunk:
  assumes "0 < size'" and "data \<noteq> []"
  shows "length (splitBuffer data size') = 1 \<longleftrightarrow> length data \<le> size'"
proof
  assume "length data \<le> size'"
  then have "drop size' data = []" by simp
  with assms show "length (splitBuffer data size') = 1"
    by (simp add: splitBuffer_step)
next
  assume one: "length (splitBuffer data size') = 1"
  show "length data \<le> size'"
  proof (rule ccontr)
    assume "\<not> length data \<le> size'"
    then have "size' < length data" by simp
    from two_chunks [OF assms(1) this] one show False by simp
  qed
qed

lemma getInputSignature_loop_acked:
  assumes "length ps = length msgs"
    and "\<forall>i<length msgs. cmd_getInputSignature A None None (msgs ! i) False = Inr (ps ! i)"
    and "\<forall>i<length msgs. \<exists>res d. reply dev ps i = Inr res
            \<and> res_getInputSignature A res True = Inr d"
  shows "getInputSignature_loop A msgs dev = (Inr (), dev\<lparr>log := log dev @ ps\<rparr>)"
  using assms
proof (induction msgs arbitrary: ps dev)
  case Nil
  then show ?case by simp
next
  case (Cons msg msgs)
  from Cons.prems(1) obtain p ps' where ps: "ps = p # ps'" and len: "length ps' = length msgs"
    by (cases ps) auto
  let ?dev1 = "dev\<lparr>log := log dev @ [p]\<rparr>"
  from Cons.prems(2) ps have c0: "cmd_getInputSignature A None None msg False = Inr p"
    by auto
  from Cons.prems(2) ps
  have cs: "\<forall>i<length msgs. cmd_getInputSignature A None None (msgs ! i) False = Inr (ps' ! i)"
    by auto
  from Cons.prems(3) obtain res d where r0: "reply dev ps 0 = Inr res"
    and a0: "res_getInputSignature A res True = Inr d"
    by auto
  have rs: "\<forall>i<length msgs. \<exists>res d. reply ?dev1 ps' i = Inr res
            \<and> res_getInputSignature A res True = Inr d"
  proof (intro allI impI)
    fix i assume "i < length msgs"
    then have "Suc i < length (msg # msgs)" by simp
    with Cons.prems(3) have "\<exists>res d. reply dev ps (Suc i) = Inr res
            \<and> res_getInputSignature A res True = Inr d"
      by blast
    then show "\<exists>res d. reply ?dev1 ps' i = Inr res \<and> res_getInputSignature A res True = Inr d"
      by (simp add: reply_shift ps)
  qed
  from r0 ps have ex: "exchange dev p = (Inr res, ?dev1)"
    by (simp add: exchange_def reply_def)
  have "getInputSignature_loop A (msg # msgs) dev = getInputSignature_loop A msgs ?dev1"
    by (simp add: c0 ex a0)
  also have "\<dots> = (Inr (), ?dev1\<lparr>log := log ?dev1 @ ps'\<rparr>)"
    using len cs rs by (rule Cons.IH)
  finally show ?case by (simp add: ps)
qed


lemma empty_acked_iff:
  "empty_acked A dev ps i \<longleftrightarrow>
     (\<exists>res d. reply dev ps i = Inr res \<and> res_getInputSignature A res True = Inr d)"
  by (auto simp: empty_acked_def split: sum.splits)

lemma empty_acked_shift:
  "empty_acked A (dev\<lparr>log := log dev @ [p]\<rparr>) ps i = empty_acked A dev (p # ps) (Suc i)"
  by (simp add: empty_acked_def reply_shift)

lemma empty_refused_shift:
  "empty_refused A (dev\<lparr>log := log dev @ [p]\<rparr>) ps i e = empty_refused A dev (p # ps) (Suc i) e"
  by (simp add: empty_refused_def reply_shift)

lemma getInputSignature_loop_refused:
  assumes "length ps = length msgs"
    and "\<forall>i<length msgs. cmd_getInputSignature A None None (msgs ! i) False = Inr (ps ! i)"
    and "j < length msgs"
    and "\<forall>i<j. empty_acked A dev ps i"
    and "empty_refused A dev ps j e"
  shows "getInputSignature_loop A msgs dev = (Inl e, dev\<lparr>log := log dev @ take (Suc j) ps\<rparr>)"
  using assms
proof (induction msgs arbitrary: ps dev j)
  case Nil
  then show ?case by simp
next
  case (Cons msg msgs)
  from Cons.prems(1) obtain p ps' where ps: "ps = p # ps'" and len: "length ps' = length msgs"
    by (cases ps) auto
  let ?dev1 = "dev\<lparr>log := log dev @ [p]\<rparr>"
  from Cons.prems(2) ps have c0: "cmd_getInputSignature A None None msg False = Inr p"
    by auto
  from Cons.prems(2) ps
  have cs: "\<forall>i<length msgs. cmd_getInputSignature A None None (msgs ! i) False = Inr (ps' ! i)"
    by auto
  have ex: "exchange dev p = (reply dev ps 0, ?dev1)"
    by (simp add: exchange_def reply_def ps)
  show ?case
  proof (cases j)
    case 0
    with Cons.prems(5) have rf: "empty_refused A dev ps 0 e" by simp
    have "getInputSignature_loop A (msg # msgs) dev = (Inl e, ?dev1)"
    proof (cases "reply dev ps 0")
      case (Inl e')
      with rf have "e' = e" by (simp add: empty_refused_def)
      with Inl show ?thesis by (simp add: c0 ex)
    next
      case (Inr res)
      with rf have "res_getInputSignature A res True = Inl e" by (simp add: empty_refused_def)
      with Inr show ?thesis by (simp add: c0 ex)
    qed
    with 0 ps show ?thesis by simp
  next
    case (Suc j')
    with Cons.prems(4) have "empty_acked A dev ps 0" by simp
    then obtain res d where r0: "reply dev ps 0 = Inr res"
      and a0: "res_getInputSignature A res True = Inr d"
      by (auto simp: empty_acked_iff)
    from Cons.prems(3) Suc have j': "j' < length msgs" by simp
    have ak: "\<forall>i<j'. empty_acked A ?dev1 ps' i"
    proof (intro allI impI)
      fix i assume "i < j'"
      then have "Suc i < j" using Suc by simp
      with Cons.prems(4) have "empty_acked A dev ps (Suc i)" by blast
      then show "empty_acked A ?dev1 ps' i" by (simp add: empty_acked_shift ps)
    qed
    from Cons.prems(5) Suc have rf: "empty_refused A ?dev1 ps' j' e"
      by (simp add: empty_refused_shift ps)
    have "getInputSignature_loop A (msg # msgs) dev = getInputSignature_loop A msgs ?dev1"
      by (simp add: c0 ex r0 a0)
    also have "\<dots> = (Inl e, ?dev1\<lparr>log := log ?dev1 @ take (Suc j') ps'\<rparr>)"
      using len cs j' ak rf by (rule Cons.IH)
    finally show ?thesis by (simp add: ps Suc)
  qed
qed

lemma nth_Cons_last: "xs \<noteq> [] \<Longrightarrow> (x # xs) ! length xs = last xs"
  by (cases xs rule: rev_cases) (simp_all add: nth_append)

lemma reply_butlast:
  assumes "i < length (butlast ps)"
  shows "reply (dev\<lparr>log := log dev @ [p]\<rparr>) (butlast ps) i = reply dev (p # ps) (Suc i)"
proof -
  from assms have "Suc i \<le> length (butlast ps)" by simp
  then have "take (Suc i) (butlast ps) = take (Suc i) ps"
    by (simp add: take_butlast)
  then show ?thesis by (simp add: reply_def)
qed

text \<open>
  The call after its first exchange, for a script of chunks \<open>c0 # cs\<close> whose first
  command is \<open>p0\<close>.
\<close>

lemma getInputSignature_head:
  assumes "getPrevRedeem X ledgerInput = (Inr (Some s), li)"
    and "splitBuffer (varint (length (raw s)) @ raw s) (MAX_SCRIPT_PACKET A) = c0 # cs"
    and "cmd_getInputSignature A (Some li) (Some hsdInput) c0 True = Inr p0"
  shows "getInputSignature X A dev ledgerInput hsdInput =
      (case reply dev (p0 # ps) 0 of
         Inl e \<Rightarrow> (Inl e, dev\<lparr>log := log dev @ [p0]\<rparr>)
       | Inr r0 \<Rightarrow>
       if cs = [] then (res_getInputSignature A r0 False, dev\<lparr>log := log dev @ [p0]\<rparr>)
       else
       (case res_getInputSignature A r0 True of
          Inl e \<Rightarrow> (Inl e, dev\<lparr>log := log dev @ [p0]\<rparr>)
        | Inr d \<Rightarrow>
       (case getInputSignature_loop A (butlast cs) (dev\<lparr>log := log dev @ [p0]\<rparr>) of
          (Inl e, dev2) \<Rightarrow> (Inl e, dev2)
        | (Inr u, dev2) \<Rightarrow>
       (case cmd_getInputSignature A None None (last cs) False of
          Inl e \<Rightarrow> (Inl e, dev2)
        | Inr packet \<Rightarrow>
       (case exchange dev2 packet of
          (Inl e, dev3) \<Rightarrow> (Inl e, dev3)
        | (Inr res, dev3) \<Rightarrow> (res_getInputSignature A res False, dev3))))))"
proof -
  have ex: "exchange dev p0 = (reply dev (p0 # ps) 0, dev\<lparr>log := log dev @ [p0]\<rparr>)"
    by (simp add: exchange_def reply_def)
  show ?thesis
    by (cases "reply dev (p0 # ps) 0")
       (simp_all add: getInputSignature_def assms encoded_script_eq ex)
qed

lemma script_chunks:
  assumes "0 < MAX_SCRIPT_PACKET A"
    and "chunks = splitBuffer (varint (length (raw s)) @ raw s) (MAX_SCRIPT_PACKET A)"
  shows "chunks \<noteq> []"
    and "length chunks = (sizeVarint (length (raw s)) + length (raw s) + MAX_SCRIPT_PACKET A - 1)
               div MAX_SCRIPT_PACKET A"
    and "length chunks = 1 \<longleftrightarrow>
           sizeVarint (length (raw s)) + length (raw s) \<le> MAX_SCRIPT_PACKET A"
proof -
  let ?enc = "varint (length (raw s)) @ raw s"
  have ne: "?enc \<noteq> []"
    using sizeVarint_pos [of "length (raw s)"] length_varint [of "length (raw s)"]
    by (metis append_is_Nil_conv length_greater_0_conv)
  with assms show "chunks \<noteq> []" by (simp add: splitBuffer_step)
  show "length chunks = (sizeVarint (length (raw s)) + length (raw s) + MAX_SCRIPT_PACKET A - 1)
               div MAX_SCRIPT_PACKET A"
    using length_splitBuffer [OF assms(1), of ?enc] assms(2) by simp
  show "length chunks = 1 \<longleftrightarrow>
           sizeVarint (length (raw s)) + length (raw s) \<le> MAX_SCRIPT_PACKET A"
    using one_chunk [OF assms(1) ne] assms(2) by simp
qed

lemma getInputSignature_all_acked:
  assumes max: "0 < MAX_SCRIPT_PACKET A"
    and prevred: "getPrevRedeem X ledgerInput = (Inr (Some s), li)"
    and chunks: "chunks = splitBuffer (varint (length (raw s)) @ raw s) (MAX_SCRIPT_PACKET A)"
    and n: "n = length chunks"
    and lens: "length pkts = n"
    and cmds: "\<forall>i<n. cmd_getInputSignature A (if i = 0 then Some li else None)
                   (if i = 0 then Some hsdInput else None) (chunks ! i) (i = 0)
                 = Inr (pkts ! i)"
    and acks: "\<forall>i<n - 1. empty_acked A dev pkts i"
  shows "getInputSignature X A dev ledgerInput hsdInput
           = ((case reply dev pkts (n - 1) of
                 Inl e \<Rightarrow> Inl e
               | Inr r \<Rightarrow> res_getInputSignature A r False),
              dev\<lparr>log := log dev @ pkts\<rparr>)"
proof -
  from script_chunks(1) [OF max chunks] obtain c0 cs where cc: "chunks = c0 # cs"
    by (cases chunks) auto
  with n have pos: "0 < n" by simp
  from cc n lens obtain p0 ps where pp: "pkts = p0 # ps" and lps: "length ps = length cs"
    by (cases pkts) auto
  let ?dev1 = "dev\<lparr>log := log dev @ [p0]\<rparr>"
  from cmds pos cc pp have c0: "cmd_getInputSignature A (Some li) (Some hsdInput) c0 True = Inr p0"
    by auto
  have split: "splitBuffer (varint (length (raw s)) @ raw s) (MAX_SCRIPT_PACKET A) = c0 # cs"
    using chunks cc by simp
  note head = getInputSignature_head [OF prevred split c0, of dev ps]
  show ?thesis
  proof (cases "cs = []")
    case True
    with cc n lps pp have "n = 1" and "pkts = [p0]" by simp_all
    with head True pp show ?thesis
      by (cases "reply dev (p0 # ps) 0") simp_all
  next
    case False
    with cc n have n2: "2 \<le> n" by (cases cs) simp_all
    from False lps have psne: "ps \<noteq> []" by auto
    from acks n2 have "empty_acked A dev pkts 0" by simp
    then obtain r0 d where r0: "reply dev (p0 # ps) 0 = Inr r0"
      and a0: "res_getInputSignature A r0 True = Inr d"
      by (auto simp: empty_acked_iff pp)
    let ?dev2 = "?dev1\<lparr>log := log ?dev1 @ butlast ps\<rparr>"
    have lb: "length (butlast ps) = length (butlast cs)"
      using lps by simp
    have mid_cmds: "\<forall>i<length (butlast cs).
        cmd_getInputSignature A None None (butlast cs ! i) False = Inr (butlast ps ! i)"
    proof (intro allI impI)
      fix i assume i: "i < length (butlast cs)"
      then have "Suc i < n" using cc n by simp
      with cmds have "cmd_getInputSignature A (if Suc i = 0 then Some li else None)
                   (if Suc i = 0 then Some hsdInput else None) (chunks ! Suc i) (Suc i = 0)
                 = Inr (pkts ! Suc i)"
        by blast
      then have "cmd_getInputSignature A None None (cs ! i) False = Inr (ps ! i)"
        by (simp add: cc pp)
      with i lb show "cmd_getInputSignature A None None (butlast cs ! i) False
          = Inr (butlast ps ! i)"
        by (simp add: nth_butlast)
    qed
    have mid_replies: "\<forall>i<length (butlast cs). \<exists>res d. reply ?dev1 (butlast ps) i = Inr res
            \<and> res_getInputSignature A res True = Inr d"
    proof (intro allI impI)
      fix i assume i: "i < length (butlast cs)"
      then have si: "Suc i < n - 1" using cc n by simp
      with acks have "empty_acked A dev pkts (Suc i)" by blast
      moreover from i lb have "reply ?dev1 (butlast ps) i = reply dev pkts (Suc i)"
        by (simp add: reply_butlast pp)
      ultimately show "\<exists>res d. reply ?dev1 (butlast ps) i = Inr res
            \<and> res_getInputSignature A res True = Inr d"
        by (simp add: empty_acked_iff)
    qed
    have loop: "getInputSignature_loop A (butlast cs) ?dev1 = (Inr (), ?dev2)"
      using lb mid_cmds mid_replies by (rule getInputSignature_loop_acked)
    have nlast: "n - 1 < n" using pos by simp
    have lastc: "chunks ! (n - 1) = last cs"
      using nth_Cons_last [OF False, of c0] cc n by simp
    have lastp: "pkts ! (n - 1) = last ps"
      using nth_Cons_last [OF psne, of p0] pp n cc lps by simp
    from cmds nlast have "cmd_getInputSignature A (if n - 1 = 0 then Some li else None)
                   (if n - 1 = 0 then Some hsdInput else None) (chunks ! (n - 1)) (n - 1 = 0)
                 = Inr (pkts ! (n - 1))"
      by blast
    with n2 lastc lastp
    have clast: "cmd_getInputSignature A None None (last cs) False = Inr (last ps)"
      by simp
    have whole: "[p0] @ butlast ps @ [last ps] = pkts"
      using psne pp by simp
    have "take (Suc (n - 1)) pkts = pkts" using lens pos by simp
    then have rl: "reply dev pkts (n - 1) = behaviour dev (log dev @ pkts)"
      by (simp add: reply_def)
    have exl: "exchange ?dev2 (last ps)
        = (reply dev pkts (n - 1), dev\<lparr>log := log dev @ pkts\<rparr>)"
      using whole rl by (simp add: exchange_def)
    from head False r0 a0 loop clast exl show ?thesis
      by (cases "reply dev pkts (n - 1)") simp_all
  qed
qed

lemma getInputSignature_refused:
  assumes max: "0 < MAX_SCRIPT_PACKET A"
    and prevred: "getPrevRedeem X ledgerInput = (Inr (Some s), li)"
    and chunks: "chunks = splitBuffer (varint (length (raw s)) @ raw s) (MAX_SCRIPT_PACKET A)"
    and n: "n = length chunks"
    and lens: "length pkts = n"
    and cmds: "\<forall>i<n. cmd_getInputSignature A (if i = 0 then Some li else None)
                   (if i = 0 then Some hsdInput else None) (chunks ! i) (i = 0)
                 = Inr (pkts ! i)"
    and j: "j < n - 1"
    and acks: "\<forall>i<j. empty_acked A dev pkts i"
    and rf: "empty_refused A dev pkts j e"
  shows "getInputSignature X A dev ledgerInput hsdInput
           = (Inl e, dev\<lparr>log := log dev @ take (Suc j) pkts\<rparr>)"
proof -
  from script_chunks(1) [OF max chunks] obtain c0 cs where cc: "chunks = c0 # cs"
    by (cases chunks) auto
  with n have pos: "0 < n" by simp
  from cc n lens obtain p0 ps where pp: "pkts = p0 # ps" and lps: "length ps = length cs"
    by (cases pkts) auto
  from j cc n have csne: "cs \<noteq> []" by auto
  let ?dev1 = "dev\<lparr>log := log dev @ [p0]\<rparr>"
  from cmds pos cc pp have c0: "cmd_getInputSignature A (Some li) (Some hsdInput) c0 True = Inr p0"
    by auto
  have split: "splitBuffer (varint (length (raw s)) @ raw s) (MAX_SCRIPT_PACKET A) = c0 # cs"
    using chunks cc by simp
  note head = getInputSignature_head [OF prevred split c0, of dev ps]
  show ?thesis
  proof (cases j)
    case 0
    with rf pp have r: "empty_refused A dev (p0 # ps) 0 e" by simp
    have "getInputSignature X A dev ledgerInput hsdInput = (Inl e, ?dev1)"
    proof (cases "reply dev (p0 # ps) 0")
      case (Inl e')
      with r have "e' = e" by (simp add: empty_refused_def)
      with Inl head show ?thesis by simp
    next
      case (Inr r0)
      with r have "res_getInputSignature A r0 True = Inl e" by (simp add: empty_refused_def)
      with Inr head csne show ?thesis by simp
    qed
    with 0 pp show ?thesis by simp
  next
    case (Suc j')
    with acks have "empty_acked A dev pkts 0" by simp
    then obtain r0 d where r0: "reply dev (p0 # ps) 0 = Inr r0"
      and a0: "res_getInputSignature A r0 True = Inr d"
      by (auto simp: empty_acked_iff pp)
    have lb: "length (butlast ps) = length (butlast cs)"
      using lps by simp
    from j Suc cc n have j': "j' < length (butlast cs)" by simp
    have mid_cmds: "\<forall>i<length (butlast cs).
        cmd_getInputSignature A None None (butlast cs ! i) False = Inr (butlast ps ! i)"
    proof (intro allI impI)
      fix i assume i: "i < length (butlast cs)"
      then have "Suc i < n" using cc n by simp
      with cmds have "cmd_getInputSignature A (if Suc i = 0 then Some li else None)
                   (if Suc i = 0 then Some hsdInput else None) (chunks ! Suc i) (Suc i = 0)
                 = Inr (pkts ! Suc i)"
        by blast
      then have "cmd_getInputSignature A None None (cs ! i) False = Inr (ps ! i)"
        by (simp add: cc pp)
      with i lb show "cmd_getInputSignature A None None (butlast cs ! i) False
          = Inr (butlast ps ! i)"
        by (simp add: nth_butlast)
    qed
    have ak: "\<forall>i<j'. empty_acked A ?dev1 (butlast ps) i"
    proof (intro allI impI)
      fix i assume i: "i < j'"
      with Suc acks have "empty_acked A dev pkts (Suc i)" by simp
      moreover from i j' lb have "reply ?dev1 (butlast ps) i = reply dev pkts (Suc i)"
        by (simp add: reply_butlast pp)
      ultimately show "empty_acked A ?dev1 (butlast ps) i"
        by (simp add: empty_acked_def)
    qed
    from j' lb have "reply ?dev1 (butlast ps) j' = reply dev pkts (Suc j')"
      by (simp add: reply_butlast pp)
    with rf Suc have rf': "empty_refused A ?dev1 (butlast ps) j' e"
      by (simp add: empty_refused_def)
    have loop: "getInputSignature_loop A (butlast cs) ?dev1
        = (Inl e, ?dev1\<lparr>log := log ?dev1 @ take (Suc j') (butlast ps)\<rparr>)"
      using lb mid_cmds j' ak rf' by (rule getInputSignature_loop_refused)
    from j' lb have "take (Suc j') (butlast ps) = take (Suc j') ps"
      by (simp add: take_butlast)
    with loop have "getInputSignature_loop A (butlast cs) ?dev1
        = (Inl e, dev\<lparr>log := log dev @ take (Suc j) pkts\<rparr>)"
      by (simp add: pp Suc)
    with head csne r0 a0 show ?thesis by simp
  qed
qed

text \<open>
  Claim C2. Let the input have a previous-redeem script and let the builder accept every
  chunk of the script under its var-size header: the first chunk with the input, the hsd
  input and the first flag, every later chunk without them. The number \<open>n\<close> of chunks
  is \<open>ceil(encoded_size / MAX_SCRIPT_PACKET)\<close>, and it is 1 exactly when the encoded
  script fits in one packet. When every response before the last is accepted as an empty
  acknowledgement (none is, for \<open>n = 1\<close>), \<^verbatim>\<open>getInputSignature\<close> performs exactly the
  \<open>n\<close> exchanges of those commands, in order, and its result is the \<open>n\<close>-th response
  parsed for the signature (or the exception of the \<open>n\<close>-th exchange). The responses
  before the last are only read as empty acknowledgements and the last only as a
  signature: nothing is assumed of how they would parse the other way. When instead the
  response to chunk \<open>j\<close>, not the last, is the first one not accepted, the call throws
  that error after \<open>j + 1\<close> exchanges.
\<close>

theorem getInputSignature_exchanges:
  assumes "0 < MAX_SCRIPT_PACKET A"
    and "getPrevRedeem X ledgerInput = (Inr (Some s), li)"
    and "chunks = splitBuffer (varint (length (raw s)) @ raw s) (MAX_SCRIPT_PACKET A)"
    and "n = length chunks"
    and "length pkts = n"
    and "\<forall>i<n. cmd_getInputSignature A (if i = 0 then Some li else None)
                   (if i = 0 then Some hsdInput else None) (chunks ! i) (i = 0)
                 = Inr (pkts ! i)"
  shows "0 < n
       \<and> n = (sizeVarint (length (raw s)) + length (raw s) + MAX_SCRIPT_PACKET A - 1)
               div MAX_SCRIPT_PACKET A
       \<and> (n = 1 \<longleftrightarrow> sizeVarint (length (raw s)) + length (raw s) \<le> MAX_SCRIPT_PACKET A)
       \<and> ((\<forall>i<n - 1. empty_acked A dev pkts i) \<longrightarrow>
            getInputSignature X A dev ledgerInput hsdInput
              = ((case reply dev pkts (n - 1) of
                    Inl e \<Rightarrow> Inl e
                  | Inr r \<Rightarrow> res_getInputSignature A r False),
                 dev\<lparr>log := log dev @ pkts\<rparr>))
       \<and> (\<forall>j e. j < n - 1 \<and> (\<forall>i<j. empty_acked A dev pkts i) \<and> empty_refused A dev pkts j e
              \<longrightarrow> getInputSignature X A dev ledgerInput hsdInput
                    = (Inl e, dev\<lparr>log := log dev @ take (Suc j) pkts\<rparr>))"
proof -
  note sc = script_chunks [OF assms(1) assms(3)]
  from sc(1) assms(4) have 1: "0 < n" by simp
  from sc(2) assms(4) have 2: "n = (sizeVarint (length (raw s)) + length (raw s)
      + MAX_SCRIPT_PACKET A - 1) div MAX_SCRIPT_PACKET A"
    by simp
  from sc(3) assms(4) have 3: "n = 1 \<longleftrightarrow>
      sizeVarint (length (raw s)) + length (raw s) \<le> MAX_SCRIPT_PACKET A"
    by simp
  have 4: "(\<forall>i<n - 1. empty_acked A dev pkts i) \<longrightarrow>
            getInputSignature X A dev ledgerInput hsdInput
              = ((case reply dev pkts (n - 1) of
                    Inl e \<Rightarrow> Inl e
                  | Inr r \<Rightarrow> res_getInputSignature A r False),
                 dev\<lparr>log := log dev @ pkts\<rparr>)"
    using getInputSignature_all_acked [OF assms] by blast
  have 5: "\<forall>j e. j < n - 1 \<and> (\<forall>i<j. empty_acked A dev pkts i) \<and> empty_refused A dev pkts j e
              \<longrightarrow> getInputSignature X A dev ledgerInput hsdInput
                    = (Inl e, dev\<lparr>log := log dev @ take (Suc j) pkts\<rparr>)"
    using getInputSignature_refused [OF assms] by blast
  from 1 2 3 4 5 show ?thesis by blast
qed

lemma input_redeem_prevred:
  "getPrevRedeem hsd_sample (input_redeem r)
     = (Inr (Some (Script r)), (input_redeem r)\<lparr>cache_prevred := Some (Script r)\<rparr>)"
  by (simp add: getPrevRedeem_def input_redeem_def input_sample_def LedgerInput_init_def
      coin_scripthash_def)

text \<open>
  An instance: a redeem script of nine bytes makes three chunks, and the signature is read
  from the third response; a redeem script of one byte makes one chunk, and the signature is
  read from the only response; a device that rejects the second of three chunks ends the
  call after two exchanges.
\<close>

theorem getInputSignature_exchanges_witness:
  "getInputSignature hsd_sample apdu_sample (device_signing 3)
      (input_redeem [1, 2, 3, 4, 5, 6, 7, 8, 9]) ()
     = (Inr [0xaa, 0xbb, 0xcc],
        (device_signing 3)\<lparr>log := [[1, 9, 1, 2, 3], [0, 4, 5, 6, 7], [0, 8, 9]]\<rparr>)
   \<and> getInputSignature hsd_sample apdu_sample (device_signing 1) (input_redeem [0x51]) ()
     = (Inr [0xaa, 0xbb, 0xcc], (device_signing 1)\<lparr>log := [[1, 1, 0x51]]\<rparr>)
   \<and> getInputSignature hsd_sample apdu_sample device_rejecting
      (input_redeem [1, 2, 3, 4, 5, 6, 7, 8, 9]) ()
     = (Inl (StatusError 0x6985 ''CONDITIONS_OF_USE_NOT_SATISFIED''
               ''User rejected on-screen confirmation''),
        device_rejecting\<lparr>log := [[1, 9, 1, 2, 3], [0, 4, 5, 6, 7]]\<rparr>)"
proof -
  let ?r3 = "[1, 2, 3, 4, 5, 6, 7, 8, 9] :: bytes"
  let ?c3 = "[[9, 1, 2, 3], [4, 5, 6, 7], [8, 9]] :: bytes list"
  let ?p3 = "[[1, 9, 1, 2, 3], [0, 4, 5, 6, 7], [0, 8, 9]] :: bytes list"
  let ?li3 = "(input_redeem ?r3)\<lparr>cache_prevred := Some (Script ?r3)\<rparr>"
  let ?e = "StatusError 0x6985 ''CONDITIONS_OF_USE_NOT_SATISFIED''
               ''User rejected on-screen confirmation''"
  have max: "0 < MAX_SCRIPT_PACKET apdu_sample" by (simp add: apdu_sample_def)
  have ch3: "?c3 = splitBuffer (varint (length (raw (Script ?r3))) @ raw (Script ?r3))
                     (MAX_SCRIPT_PACKET apdu_sample)"
    by (simp add: apdu_sample_def varint_def splitBuffer_step)
  have n3: "(3::nat) = length ?c3" by simp
  have l3: "length ?p3 = 3" by simp
  have cmds3: "\<forall>i<3. cmd_getInputSignature apdu_sample (if i = 0 then Some ?li3 else None)
                   (if i = 0 then Some () else None) (?c3 ! i) (i = 0) = Inr (?p3 ! i)"
  proof (intro allI impI)
    fix i :: nat
    assume "i < 3"
    then have "i = 0 \<or> i = 1 \<or> i = 2" by auto
    then show "cmd_getInputSignature apdu_sample (if i = 0 then Some ?li3 else None)
                   (if i = 0 then Some () else None) (?c3 ! i) (i = 0) = Inr (?p3 ! i)"
      by (auto simp: apdu_sample_def)
  qed
  have acks3: "\<forall>i<3 - 1. empty_acked apdu_sample (device_signing 3) ?p3 i"
  proof (intro allI impI)
    fix i :: nat
    assume "i < 3 - 1"
    then have "i = 0 \<or> i = 1" by auto
    then show "empty_acked apdu_sample (device_signing 3) ?p3 i"
      by (auto simp: empty_acked_def reply_def device_signing_def apdu_sample_def statusWord_def)
  qed
  have last3: "reply (device_signing 3) ?p3 (3 - 1) = Inr [0xaa, 0xbb, 0xcc, 0x90, 0x00]"
    by (simp add: reply_def device_signing_def)
  have sig: "res_getInputSignature apdu_sample [0xaa, 0xbb, 0xcc, 0x90, 0x00] False
      = Inr [0xaa, 0xbb, 0xcc]"
    by (simp add: apdu_sample_def statusWord_def)
  note T3 = getInputSignature_exchanges [OF max input_redeem_prevred ch3 n3 l3 cmds3]
  from T3 [of "device_signing 3"] acks3
  have "getInputSignature hsd_sample apdu_sample (device_signing 3) (input_redeem ?r3) ()
      = ((case reply (device_signing 3) ?p3 (3 - 1) of
            Inl e \<Rightarrow> Inl e
          | Inr r \<Rightarrow> res_getInputSignature apdu_sample r False),
         (device_signing 3)\<lparr>log := log (device_signing 3) @ ?p3\<rparr>)"
    by blast
  then have a: "getInputSignature hsd_sample apdu_sample (device_signing 3) (input_redeem ?r3) ()
      = (Inr [0xaa, 0xbb, 0xcc], (device_signing 3)\<lparr>log := ?p3\<rparr>)"
    unfolding last3 by (simp add: sig device_signing_def)
  have ak0: "\<forall>i<1. empty_acked apdu_sample device_rejecting ?p3 i"
    by (simp add: empty_acked_def reply_def device_rejecting_def apdu_sample_def statusWord_def)
  have rf1: "empty_refused apdu_sample device_rejecting ?p3 1 ?e"
    by (simp add: empty_refused_def reply_def device_rejecting_def apdu_sample_def
        statusWord_def statusError_rejected)
  from T3 [of device_rejecting]
  have "\<forall>j e. j < 3 - 1 \<and> (\<forall>i<j. empty_acked apdu_sample device_rejecting ?p3 i)
            \<and> empty_refused apdu_sample device_rejecting ?p3 j e
         \<longrightarrow> getInputSignature hsd_sample apdu_sample device_rejecting (input_redeem ?r3) ()
               = (Inl e, device_rejecting\<lparr>log := log device_rejecting @ take (Suc j) ?p3\<rparr>)"
    by blast
  then have "(1::nat) < 3 - 1 \<and> (\<forall>i<1. empty_acked apdu_sample device_rejecting ?p3 i)
            \<and> empty_refused apdu_sample device_rejecting ?p3 1 ?e
         \<longrightarrow> getInputSignature hsd_sample apdu_sample device_rejecting (input_redeem ?r3) ()
               = (Inl ?e, device_rejecting\<lparr>log := log device_rejecting @ take (Suc 1) ?p3\<rparr>)"
    by blast
  with ak0 rf1
  have "getInputSignature hsd_sample apdu_sample device_rejecting (input_redeem ?r3) ()
      = (Inl ?e, device_rejecting\<lparr>log := log device_rejecting @ take (Suc 1) ?p3\<rparr>)"
    by simp
  then have c: "getInputSignature hsd_sample apdu_sample device_rejecting (input_redeem ?r3) ()
      = (Inl ?e, device_rejecting\<lparr>log := [[1, 9, 1, 2, 3], [0, 4, 5, 6, 7]]\<rparr>)"
    by (simp add: device_rejecting_def)
  let ?r1 = "[0x51] :: bytes"
  let ?c1 = "[[1, 0x51]] :: bytes list"
  let ?p1 = "[[1, 1, 0x51]] :: bytes list"
  let ?li1 = "(input_redeem ?r1)\<lparr>cache_prevred := Some (Script ?r1)\<rparr>"
  have ch1: "?c1 = splitBuffer (varint (length (raw (Script ?r1))) @ raw (Script ?r1))
                     (MAX_SCRIPT_PACKET apdu_sample)"
    by (simp add: apdu_sample_def varint_def splitBuffer_step)
  have n1: "(1::nat) = length ?c1" by simp
  have l1: "length ?p1 = 1" by simp
  have cmds1: "\<forall>i<1. cmd_getInputSignature apdu_sample (if i = 0 then Some ?li1 else None)
                   (if i = 0 then Some () else None) (?c1 ! i) (i = 0) = Inr (?p1 ! i)"
    by (simp add: apdu_sample_def)
  have acks1: "\<forall>i<1 - 1. empty_acked apdu_sample (device_signing 1) ?p1 i"
    by simp
  have last1: "reply (device_signing 1) ?p1 (1 - 1) = Inr [0xaa, 0xbb, 0xcc, 0x90, 0x00]"
    by (simp add: reply_def device_signing_def)
  from getInputSignature_exchanges [OF max input_redeem_prevred ch1 n1 l1 cmds1,
         of "device_signing 1"] acks1
  have "getInputSignature hsd_sample apdu_sample (device_signing 1) (input_redeem ?r1) ()
      = ((case reply (device_signing 1) ?p1 (1 - 1) of
            Inl e \<Rightarrow> Inl e
          | Inr r \<Rightarrow> res_getInputSignature apdu_sample r False),
         (device_signing 1)\<lparr>log := log (device_signing 1) @ ?p1\<rparr>)"
    by blast
  then have b: "getInputSignature hsd_sample apdu_sample (device_signing 1) (input_redeem ?r1) ()
      = (Inr [0xaa, 0xbb, 0xcc], (device_signing 1)\<lparr>log := ?p1\<rparr>)"
    unfolding last1 by (simp add: sig device_signing_def)
  from a b c show ?thesis by blast
qed

end
